theory Spec2Isabelle
  imports Main "HOL-Library.Word"
begin

section \<open>Values and documents\<close>

text \<open>
  The script \<^verbatim>\<open>init/01_init_collections.js\<close> runs in the database shell. Its data are
  object literals: the two \<^verbatim>\<open>$jsonSchema\<close> objects, the index lists and the seed
  documents. A value is one of the BSON kinds the script writes or its schemas name
  (\<^verbatim>\<open>null\<close>, \<^verbatim>\<open>bool\<close>, \<^verbatim>\<open>int\<close>, \<^verbatim>\<open>string\<close>, \<^verbatim>\<open>date\<close>, \<^verbatim>\<open>objectId\<close>,
  \<^verbatim>\<open>array\<close>, \<^verbatim>\<open>object\<close>); an object keeps its fields in the order written.
  A date is its number of milliseconds, an ObjectId is the number that identifies it.
\<close>

datatype bson =
    BNull
  | BBool bool
  | BInt int
  | BStr string
  | BDate int
  | BOid nat
  | BArr "bson list"
  | BObj "(string \<times> bson) list"

type_synonym doc = "(string \<times> bson) list"

fun type_name :: "bson \<Rightarrow> string" where
  "type_name BNull = ''null''"
| "type_name (BBool _) = ''bool''"
| "type_name (BInt _) = ''int''"
| "type_name (BStr _) = ''string''"
| "type_name (BDate _) = ''date''"
| "type_name (BOid _) = ''objectId''"
| "type_name (BArr _) = ''array''"
| "type_name (BObj _) = ''object''"

section \<open>Index specifications\<close>

text \<open>
  An entry of \<^verbatim>\<open>usersIndexes\<close> or \<^verbatim>\<open>tasksIndexes\<close> is \<^verbatim>\<open>{ keys: {...}, options: {...} }\<close>.
  A key maps a field to a number (\<^verbatim>\<open>1\<close> or \<^verbatim>\<open>-1\<close> in the script) or to a string
  (\<^verbatim>\<open>"text"\<close>); the numbers are the 32-bit integers. The options the script writes
  or reads are \<^verbatim>\<open>name\<close>, \<^verbatim>\<open>unique\<close>, \<^verbatim>\<open>weights\<close>, \<^verbatim>\<open>default_language\<close> and
  \<^verbatim>\<open>collection\<close>; an option that is not written is \<open>None\<close>, as is a missing
  \<^verbatim>\<open>keys\<close> or \<^verbatim>\<open>options\<close> member of an entry.
\<close>

datatype keyval = KNum "32 word" | KStr string

type_synonym index_keys = "(string \<times> keyval) list"

record index_options =
  opt_name :: "string option"
  opt_unique :: "bool option"
  opt_weights :: "(string \<times> int) list option"
  opt_default_language :: "string option"
  opt_collection :: "string option"

record index_spec =
  idx_keys :: "index_keys option"
  idx_options :: "index_options option"

definition no_options :: index_options where
  "no_options = \<lparr>opt_name = None, opt_unique = None, opt_weights = None,
     opt_default_language = None, opt_collection = None\<rparr>"

text \<open>
  The text of a key's number, as a template literal prints it: JavaScript writes an
  integer of this size with all its decimal digits and a leading \<^verbatim>\<open>-\<close> when it is
  negative.
\<close>

fun digit_char :: "nat \<Rightarrow> char" where
  "digit_char n = (''0123456789'' ! (n mod 10))"

fun show_nat :: "nat \<Rightarrow> string" where
  "show_nat n = (if n < 10 then [digit_char n] else show_nat (n div 10) @ [digit_char n])"

definition show_int :: "32 word \<Rightarrow> string" where
  "show_int i =
     (if sint i < 0 then CHR ''-'' # show_nat (nat (- sint i)) else show_nat (nat (sint i)))"

fun keyval_text :: "keyval \<Rightarrow> string" where
  "keyval_text (KNum i) = show_int i"
| "keyval_text (KStr s) = s"

fun join :: "string \<Rightarrow> string list \<Rightarrow> string" where
  "join sep [] = []"
| "join sep [x] = x"
| "join sep (x # y # ys) = x @ sep @ join sep (y # ys)"

text \<open>
  \<^verbatim>\<open>Object.keys(keys).map(k => `${k}_${keys[k]}`).join('_')\<close>: the name generated from
  the keys, which is also the name the database gives an index created without one.
\<close>

definition generated_name :: "index_keys \<Rightarrow> string" where
  "generated_name ks = join ''_'' (map (\<lambda>(k, v). k @ ''_'' @ keyval_text v) ks)"

section \<open>The database\<close>

text \<open>
  The database is the script's collaborator, reached through the shell's \<^verbatim>\<open>db\<close>
  object. Its state is modelled as far as the script can observe or change it: each
  collection has a validator with its level and action, a list of indexes and a list
  of documents. The operations below follow the documented behaviour of the commands
  the script calls. Left out: views, capped collections, indexes on dotted paths and
  on array elements, BSON kinds other than those of \<^typ>\<open>bson\<close>, the server's check
  of an index's option names, and time.
\<close>

record index =
  ix_name :: string
  ix_keys :: index_keys
  ix_options :: index_options

record coll =
  c_validator :: "bson option"
  c_validationLevel :: string
  c_validationAction :: string
  c_indexes :: "index list"
  c_docs :: "doc list"

type_synonym db = "string \<Rightarrow> coll option"

datatype error =
    NamespaceExists
  | NamespaceNotFound
  | CannotCreateIndex
  | IndexKeySpecsConflict
  | IndexOptionsConflict
  | DuplicateKey
  | DocumentValidationFailure
  | FailedToParse

definition empty_coll :: coll where
  "empty_coll = \<lparr>c_validator = None, c_validationLevel = ''strict'',
     c_validationAction = ''error'', c_indexes = [], c_docs = []\<rparr>"

definition empty_db :: db where
  "empty_db = (\<lambda>_. None)"

text \<open>A collection that is written to before it exists is created on the spot.\<close>

definition the_coll :: "db \<Rightarrow> string \<Rightarrow> coll" where
  "the_coll d c = (case d c of None \<Rightarrow> empty_coll | Some k \<Rightarrow> k)"

text \<open>\<^verbatim>\<open>db.getCollectionInfos({ name })\<close>: the collections of that name, none or one.\<close>

definition getCollectionInfos :: "db \<Rightarrow> string \<Rightarrow> string list" where
  "getCollectionInfos d c = (case d c of None \<Rightarrow> [] | Some _ \<Rightarrow> [c])"

text \<open>
  The server parses a validator before it stores it, and refuses one it cannot parse.
  \<open>parses\<close> is that check, after the server's documentation of \<^verbatim>\<open>$jsonSchema\<close>: a
  schema is an object, each of its keywords is one of those the server implements, and
  the same holds of every schema under it. The keywords of JSON Schema that the
  documentation lists as not implemented, \<^verbatim>\<open>$ref\<close>, \<^verbatim>\<open>$schema\<close>, \<^verbatim>\<open>default\<close>,
  \<^verbatim>\<open>definitions\<close>, \<^verbatim>\<open>format\<close> and \<^verbatim>\<open>id\<close>, are refused, like any other word that
  is not in the list. The names of the properties are not keywords. Left out: the check
  of each keyword's value (that \<^verbatim>\<open>required\<close> is a list of strings, and so on) and the
  keywords of field encryption.
\<close>

definition supported_keywords :: "string list" where
  "supported_keywords =
     [''additionalItems'', ''additionalProperties'', ''allOf'', ''anyOf'', ''bsonType'',
      ''dependencies'', ''description'', ''enum'', ''exclusiveMaximum'', ''exclusiveMinimum'',
      ''items'', ''maximum'', ''minimum'', ''maxItems'', ''minItems'', ''maxLength'',
      ''minLength'', ''maxProperties'', ''minProperties'', ''multipleOf'', ''not'', ''oneOf'',
      ''pattern'', ''patternProperties'', ''properties'', ''required'', ''title'', ''type'',
      ''uniqueItems'']"

text \<open>
  The schemas under a schema. \<^verbatim>\<open>properties\<close> and \<^verbatim>\<open>patternProperties\<close> hold one
  for each name; \<^verbatim>\<open>dependencies\<close> holds one for a name whose value is an object;
  \<^verbatim>\<open>items\<close> is a schema or a list of schemas; \<^verbatim>\<open>additionalItems\<close>,
  \<^verbatim>\<open>additionalProperties\<close> and \<^verbatim>\<open>not\<close> are a schema when they are an object;
  \<^verbatim>\<open>allOf\<close>, \<^verbatim>\<open>anyOf\<close> and \<^verbatim>\<open>oneOf\<close> are lists of schemas.
\<close>

fun members :: "bson \<Rightarrow> bson list" where
  "members (BObj ps) = map snd ps"
| "members _ = []"

fun elements :: "bson \<Rightarrow> bson list" where
  "elements (BArr ss) = ss"
| "elements _ = []"

fun as_schema :: "bson \<Rightarrow> bson list" where
  "as_schema (BObj kw) = [BObj kw]"
| "as_schema _ = []"

definition at ::
  "(string \<times> bson) list \<Rightarrow> string \<Rightarrow> (bson \<Rightarrow> bson list) \<Rightarrow> bson list" where
  "at kw k f = (case map_of kw k of None \<Rightarrow> [] | Some v \<Rightarrow> f v)"

definition subschemas :: "(string \<times> bson) list \<Rightarrow> bson list" where
  "subschemas kw =
     at kw ''properties'' members @
     at kw ''patternProperties'' members @
     at kw ''dependencies'' (\<lambda>v. concat (map as_schema (members v))) @
     at kw ''items'' (\<lambda>v. elements v @ as_schema v) @
     at kw ''additionalItems'' as_schema @
     at kw ''additionalProperties'' as_schema @
     at kw ''not'' as_schema @
     at kw ''allOf'' elements @
     at kw ''anyOf'' elements @
     at kw ''oneOf'' elements"

function parses :: "bson \<Rightarrow> bool" where
  "parses (BObj kw) =
     (list_all (\<lambda>(k, _). k \<in> set supported_keywords) kw \<and>
      list_all parses (subschemas kw))"
| "parses BNull = False"
| "parses (BBool _) = False"
| "parses (BInt _) = False"
| "parses (BStr _) = False"
| "parses (BDate _) = False"
| "parses (BOid _) = False"
| "parses (BArr _) = False"
  by pat_completeness auto
termination
proof -
  have field: "(f, x) \<in> set fs \<Longrightarrow> size x < Suc (size_list (size_prod (\<lambda>_. 0) size) fs)"
    for f :: string and x :: bson and fs
    by (induction fs) auto
  have item: "x \<in> set xs \<Longrightarrow> size x < Suc (size_list size xs)" for x :: bson and xs
    by (induction xs) auto
  have mem: "s \<in> set (members v) \<Longrightarrow> size s < size v" for s v
    using field [of _ s] by (cases v) auto
  have elt: "s \<in> set (elements v) \<Longrightarrow> size s < size v" for s v
    using item [of s] by (cases v) auto
  have self: "s \<in> set (as_schema v) \<Longrightarrow> s = v" for s v
    by (cases v) auto
  have val: "size s < size (BObj kw)"
    if "s \<in> set (at kw k f)" and "\<And>v. s \<in> set (f v) \<Longrightarrow> size s \<le> size v" for s kw k f
  proof -
    from that(1) obtain v where v: "map_of kw k = Some v" and s: "s \<in> set (f v)"
      by (cases "map_of kw k") (auto simp: at_def)
    have "(k, v) \<in> set kw" using v by (rule map_of_SomeD)
    then have "size v < size (BObj kw)" using field [of k v kw] by simp
    then show ?thesis using that(2) [OF s] by simp
  qed
  have sub: "size s < size (BObj kw)" if "s \<in> set (subschemas kw)" for s kw
  proof -
    have dep: "size s \<le> size v" if "s \<in> set (concat (map as_schema (members v)))" for v
    proof -
      from that obtain x where "x \<in> set (members v)" and "s \<in> set (as_schema x)" by auto
      then have "s \<in> set (members v)" using self [of s x] by simp
      then show ?thesis using mem [of s v] by simp
    qed
    have its: "s \<in> set (elements v @ as_schema v) \<Longrightarrow> size s \<le> size v" for v
      using elt [of s v] self [of s v] by auto
    have m: "s \<in> set (members v) \<Longrightarrow> size s \<le> size v" for v using mem [of s v] by simp
    have e: "s \<in> set (elements v) \<Longrightarrow> size s \<le> size v" for v using elt [of s v] by simp
    have a: "s \<in> set (as_schema v) \<Longrightarrow> size s \<le> size v" for v using self [of s v] by simp
    from that consider
        "s \<in> set (at kw ''properties'' members)"
      | "s \<in> set (at kw ''patternProperties'' members)"
      | "s \<in> set (at kw ''dependencies'' (\<lambda>v. concat (map as_schema (members v))))"
      | "s \<in> set (at kw ''items'' (\<lambda>v. elements v @ as_schema v))"
      | "s \<in> set (at kw ''additionalItems'' as_schema)"
      | "s \<in> set (at kw ''additionalProperties'' as_schema)"
      | "s \<in> set (at kw ''not'' as_schema)"
      | "s \<in> set (at kw ''allOf'' elements)"
      | "s \<in> set (at kw ''anyOf'' elements)"
      | "s \<in> set (at kw ''oneOf'' elements)"
      unfolding subschemas_def set_append by blast
    then show ?thesis
      by cases (erule val, erule m dep its e a)+
  qed
  show ?thesis
    by (relation "measure size") (auto dest: sub)
qed

text \<open>
  \<^verbatim>\<open>db.createCollection(name, { validator, validationLevel, validationAction })\<close>. The
  script writes the validator as \<^verbatim>\<open>{ $jsonSchema: schema }\<close>; the model keeps the schema.
  \<open>accepts\<close> is the server's parser of validators, \<open>parses\<close> for the server as
  documented: a validator it does not take is refused, and no collection is created.
\<close>

definition createCollection ::
  "(bson \<Rightarrow> bool) \<Rightarrow> string \<Rightarrow> bson \<Rightarrow> string \<Rightarrow> string \<Rightarrow> db \<Rightarrow> error + db" where
  "createCollection accepts c schema level action d =
     (case d c of
        Some _ \<Rightarrow> Inl NamespaceExists
      | None \<Rightarrow>
          if \<not> accepts schema then Inl FailedToParse
          else Inr (d(c \<mapsto> empty_coll\<lparr>c_validator := Some schema,
                 c_validationLevel := level, c_validationAction := action\<rparr>)))"

text \<open>
  \<^verbatim>\<open>db.runCommand({ collMod: name, validator, validationLevel, validationAction })\<close>.
  A validator the server does not take is refused, and the collection keeps the
  validator it had.
\<close>

definition collMod ::
  "(bson \<Rightarrow> bool) \<Rightarrow> string \<Rightarrow> bson \<Rightarrow> string \<Rightarrow> string \<Rightarrow> db \<Rightarrow> error + db" where
  "collMod accepts c schema level action d =
     (case d c of
        None \<Rightarrow> Inl NamespaceNotFound
      | Some k \<Rightarrow>
          if \<not> accepts schema then Inl FailedToParse
          else Inr (d(c \<mapsto> k\<lparr>c_validator := Some schema,
                 c_validationLevel := level, c_validationAction := action\<rparr>)))"

text \<open>
  The value of an index's keys in a document: the fields by name, a missing field
  counting as \<^verbatim>\<open>null\<close>.
\<close>

definition key_of :: "index_keys \<Rightarrow> doc \<Rightarrow> bson list" where
  "key_of ks dc = map (\<lambda>(f, _). case map_of dc f of None \<Rightarrow> BNull | Some v \<Rightarrow> v) ks"

definition is_unique :: "index_options \<Rightarrow> bool" where
  "is_unique opts = (opt_unique opts = Some True)"

definition is_text :: "index_keys \<Rightarrow> bool" where
  "is_text ks = (KStr ''text'' \<in> snd ` set ks)"

definition index_name :: "index_keys \<Rightarrow> index_options \<Rightarrow> string" where
  "index_name ks opts = (case opt_name opts of Some n \<Rightarrow> n | None \<Rightarrow> generated_name ks)"

text \<open>
  \<^verbatim>\<open>collection.createIndex(keys, options)\<close>. An index of that name with the same keys
  and options is already there: nothing happens. An index of that name with other keys
  or options, the same keys under another name, or a second text index: a conflict. A
  unique index over documents that share a key value: a duplicate key.
\<close>

definition createIndex :: "string \<Rightarrow> index_keys \<Rightarrow> index_options \<Rightarrow> db \<Rightarrow> error + db" where
  "createIndex c ks opts d =
     (let k = the_coll d c; n = index_name ks opts in
      if ks = [] then Inl CannotCreateIndex
      else case find (\<lambda>ix. ix_name ix = n) (c_indexes k) of
        Some ix \<Rightarrow>
          if ix_keys ix \<noteq> ks then Inl IndexKeySpecsConflict
          else if ix_options ix \<noteq> opts then Inl IndexOptionsConflict
          else Inr d
      | None \<Rightarrow>
          if list_ex (\<lambda>ix. ix_keys ix = ks) (c_indexes k) then Inl IndexOptionsConflict
          else if is_text ks \<and> list_ex (\<lambda>ix. is_text (ix_keys ix)) (c_indexes k)
            then Inl IndexOptionsConflict
          else if is_unique opts \<and> \<not> distinct (map (key_of ks) (c_docs k))
            then Inl DuplicateKey
          else Inr (d(c \<mapsto> k\<lparr>c_indexes := c_indexes k @
                 [\<lparr>ix_name = n, ix_keys = ks, ix_options = opts\<rparr>]\<rparr>)))"

text \<open>\<^verbatim>\<open>collection.countDocuments({})\<close>.\<close>

definition countDocuments :: "db \<Rightarrow> string \<Rightarrow> nat" where
  "countDocuments d c = length (c_docs (the_coll d c))"

section \<open>Schema validation\<close>

text \<open>
  What a \<^verbatim>\<open>$jsonSchema\<close> validator accepts, for the keywords the two schemas use.
  \<^verbatim>\<open>bsonType\<close> names one kind or a list of kinds; \<^verbatim>\<open>enum\<close> lists the allowed values;
  \<^verbatim>\<open>minLength\<close> and \<^verbatim>\<open>maxLength\<close> bound a string and say nothing of other kinds;
  \<^verbatim>\<open>required\<close>, \<^verbatim>\<open>properties\<close> and \<^verbatim>\<open>additionalProperties\<close> constrain an object;
  \<^verbatim>\<open>items\<close> constrains each element of an array. \<^verbatim>\<open>description\<close> and
  \<^verbatim>\<open>uniqueItems: false\<close> constrain nothing; \<^verbatim>\<open>default\<close> is not read here (a schema
  that has it does not get past \<open>parses\<close>).
\<close>

definition type_ok :: "bson option \<Rightarrow> bson \<Rightarrow> bool" where
  "type_ok kw v =
     (case kw of
        Some (BStr t) \<Rightarrow> type_name v = t
      | Some (BArr ts) \<Rightarrow> BStr (type_name v) \<in> set ts
      | _ \<Rightarrow> True)"

definition enum_ok :: "bson option \<Rightarrow> bson \<Rightarrow> bool" where
  "enum_ok kw v = (case kw of Some (BArr vs) \<Rightarrow> v \<in> set vs | _ \<Rightarrow> True)"

definition minLength_ok :: "bson option \<Rightarrow> bson \<Rightarrow> bool" where
  "minLength_ok kw v =
     (case (kw, v) of (Some (BInt n), BStr s) \<Rightarrow> n \<le> int (length s) | _ \<Rightarrow> True)"

definition maxLength_ok :: "bson option \<Rightarrow> bson \<Rightarrow> bool" where
  "maxLength_ok kw v =
     (case (kw, v) of (Some (BInt n), BStr s) \<Rightarrow> int (length s) \<le> n | _ \<Rightarrow> True)"

definition required_ok :: "bson option \<Rightarrow> bson \<Rightarrow> bool" where
  "required_ok kw v =
     (case (kw, v) of
        (Some (BArr rs), BObj fs) \<Rightarrow> list_all (\<lambda>r. r \<in> BStr ` fst ` set fs) rs
      | _ \<Rightarrow> True)"

definition the_properties :: "bson option \<Rightarrow> doc" where
  "the_properties kw = (case kw of Some (BObj ps) \<Rightarrow> ps | _ \<Rightarrow> [])"

function json_schema_ok :: "bson \<Rightarrow> bson \<Rightarrow> bool" where
  "json_schema_ok (BObj kw) v =
     (type_ok (map_of kw ''bsonType'') v \<and>
      enum_ok (map_of kw ''enum'') v \<and>
      minLength_ok (map_of kw ''minLength'') v \<and>
      maxLength_ok (map_of kw ''maxLength'') v \<and>
      required_ok (map_of kw ''required'') v \<and>
      (case v of
         BObj fs \<Rightarrow>
           list_all (\<lambda>(f, x).
               case map_of (the_properties (map_of kw ''properties'')) f of
                 Some s \<Rightarrow> json_schema_ok s x
               | None \<Rightarrow> map_of kw ''additionalProperties'' \<noteq> Some (BBool False)) fs
       | BArr xs \<Rightarrow>
           (case map_of kw ''items'' of
              Some s \<Rightarrow> list_all (json_schema_ok s) xs
            | None \<Rightarrow> True)
       | _ \<Rightarrow> True))"
| "json_schema_ok BNull v = True"
| "json_schema_ok (BBool _) v = True"
| "json_schema_ok (BInt _) v = True"
| "json_schema_ok (BStr _) v = True"
| "json_schema_ok (BDate _) v = True"
| "json_schema_ok (BOid _) v = True"
| "json_schema_ok (BArr _) v = True"
  by pat_completeness auto
termination
proof -
  have field: "(f, x) \<in> set fs \<Longrightarrow> size x < Suc (size_list (size_prod (\<lambda>_. 0) size) fs)"
    for f :: string and x :: bson and fs
    by (induction fs) auto
  have item: "x \<in> set xs \<Longrightarrow> size x < Suc (size_list size xs)" for x :: bson and xs
    by (induction xs) auto
  show ?thesis
    by (relation "measure (\<lambda>(s, v). size v)") (auto dest: field item)
qed

section \<open>Inserting documents\<close>

text \<open>
  A document is checked against the collection's validator unless the level is
  \<^verbatim>\<open>off\<close>; with the action \<^verbatim>\<open>error\<close> a document that fails is refused. Then the
  \<^verbatim>\<open>_id\<close> and every unique index must not meet a value already stored.
\<close>

definition validation_refuses :: "coll \<Rightarrow> doc \<Rightarrow> bool" where
  "validation_refuses k dc =
     (case c_validator k of
        None \<Rightarrow> False
      | Some schema \<Rightarrow>
          c_validationLevel k \<noteq> ''off'' \<and> c_validationAction k = ''error'' \<and>
          \<not> json_schema_ok schema (BObj dc))"

definition duplicate_key :: "coll \<Rightarrow> doc \<Rightarrow> bool" where
  "duplicate_key k dc =
     (map_of dc ''_id'' \<in> set (map (\<lambda>old. map_of old ''_id'') (c_docs k)) \<or>
      list_ex (\<lambda>ix. is_unique (ix_options ix) \<and>
                 key_of (ix_keys ix) dc \<in> set (map (key_of (ix_keys ix)) (c_docs k)))
        (c_indexes k))"

definition insertDoc :: "string \<Rightarrow> doc \<Rightarrow> db \<Rightarrow> error + db" where
  "insertDoc c dc d =
     (let k = the_coll d c in
      if validation_refuses k dc then Inl DocumentValidationFailure
      else if duplicate_key k dc then Inl DuplicateKey
      else Inr (d(c \<mapsto> k\<lparr>c_docs := c_docs k @ [dc]\<rparr>)))"

section \<open>The script's run\<close>

text \<open>
  A run threads the database through the script's calls. Each call the script issues
  is logged in \<open>trace\<close>. A call that fails throws, and nothing in the script
  catches: \<open>failed\<close> then holds the error, nothing more is issued, and the database
  stays as it was at the failure. \<^verbatim>\<open>new ObjectId()\<close> is a counter, \<open>fresh\<close>: each
  call takes the next number. The \<^verbatim>\<open>print\<close> lines and \<^verbatim>\<open>db.getName()\<close> change
  nothing in the database and are left out. The functions of the script take the
  server's parser of validators, \<open>accepts\<close>, as their first argument: it stands for the
  \<^verbatim>\<open>db\<close> handle they call.
\<close>

datatype cmd =
    GetCollectionInfos string
  | CreateCollection string bson string string
  | CollMod string bson string string
  | CreateIndex string index_keys index_options
  | CountDocuments string
  | InsertOne string doc
  | InsertMany string "doc list"

record world =
  store :: db
  trace :: "cmd list"
  fresh :: nat
  failed :: "error option"

definition issue :: "cmd \<Rightarrow> (db \<Rightarrow> error + db) \<Rightarrow> world \<Rightarrow> world" where
  "issue c f w =
     (if failed w \<noteq> None then w
      else case f (store w) of
        Inl e \<Rightarrow> w\<lparr>trace := trace w @ [c], failed := Some e\<rparr>
      | Inr d \<Rightarrow> w\<lparr>store := d, trace := trace w @ [c]\<rparr>)"

text \<open>
  A document sent without an \<^verbatim>\<open>_id\<close> gets a new ObjectId before it is written.
\<close>

definition with_id :: "nat \<Rightarrow> doc \<Rightarrow> doc" where
  "with_id n dc = (case map_of dc ''_id'' of None \<Rightarrow> (''_id'', BOid n) # dc | Some _ \<Rightarrow> dc)"

definition next_fresh :: "nat \<Rightarrow> doc \<Rightarrow> nat" where
  "next_fresh n dc = (case map_of dc ''_id'' of None \<Rightarrow> Suc n | Some _ \<Rightarrow> n)"

definition put :: "string \<Rightarrow> doc \<Rightarrow> world \<Rightarrow> world" where
  "put c dc w =
     (if failed w \<noteq> None then w
      else case insertDoc c (with_id (fresh w) dc) (store w) of
        Inl e \<Rightarrow> w\<lparr>fresh := next_fresh (fresh w) dc, failed := Some e\<rparr>
      | Inr d \<Rightarrow> w\<lparr>store := d, fresh := next_fresh (fresh w) dc\<rparr>)"

definition log_cmd :: "cmd \<Rightarrow> world \<Rightarrow> world" where
  "log_cmd c w = (if failed w \<noteq> None then w else w\<lparr>trace := trace w @ [c]\<rparr>)"

text \<open>\<^verbatim>\<open>collection.insertOne(doc)\<close>.\<close>

definition insertOne :: "string \<Rightarrow> doc \<Rightarrow> world \<Rightarrow> world" where
  "insertOne c dc w = put c dc (log_cmd (InsertOne c dc) w)"

text \<open>
  \<^verbatim>\<open>collection.insertMany(docs)\<close>, ordered: the documents are written one after the
  other, and the first that fails ends the call with the earlier ones written.
\<close>

definition insertMany :: "string \<Rightarrow> doc list \<Rightarrow> world \<Rightarrow> world" where
  "insertMany c dcs w = fold (put c) dcs (log_cmd (InsertMany c dcs) w)"

subsection \<open>ensureCollection\<close>

text \<open>
  A string is truthy unless it is empty; a member that is not there is
  \<^verbatim>\<open>undefined\<close>, which is falsy. An object, even an empty one, is truthy.
  \<open>or_else s dflt\<close> is \<^verbatim>\<open>s || dflt\<close>.
\<close>

text \<open>
  The body of the \<^verbatim>\<open>forEach\<close> callback. Its local \<^verbatim>\<open>name\<close> is the index's name and
  hides the function's parameter; \<^verbatim>\<open>arguments[1]\<close> in an arrow function is the
  enclosing function's second argument, the collection name.
\<close>

definition or_else :: "string option \<Rightarrow> string \<Rightarrow> string" where
  "or_else s dflt = (case s of None \<Rightarrow> dflt | Some t \<Rightarrow> if t \<noteq> [] then t else dflt)"

definition local_name :: "index_keys \<Rightarrow> index_options \<Rightarrow> string" where
  "local_name ks opts = or_else (opt_name opts) (generated_name ks)"

definition target :: "string \<Rightarrow> index_keys \<Rightarrow> index_options \<Rightarrow> string" where
  "target arg1 ks opts =
     (if local_name ks opts \<noteq> [] then or_else (opt_collection opts) arg1 else arg1)"

definition ensureIndex :: "string \<Rightarrow> index_spec \<Rightarrow> world \<Rightarrow> world" where
  "ensureIndex arg1 idx w =
     (let ks = (case idx_keys idx of None \<Rightarrow> [] | Some k \<Rightarrow> k);
          opts = (case idx_options idx of None \<Rightarrow> no_options | Some opt \<Rightarrow> opt);
          c = target arg1 ks opts
      in issue (CreateIndex c ks opts) (createIndex c ks opts) w)"

text \<open>
  \<^verbatim>\<open>ensureCollection(db, name, schema, indexes)\<close>; \<open>indexes\<close> is \<open>None\<close> when the
  argument is not an array.
\<close>

definition ensureCollection ::
  "(bson \<Rightarrow> bool) \<Rightarrow> string \<Rightarrow> bson \<Rightarrow> index_spec list option \<Rightarrow> world \<Rightarrow> world" where
  "ensureCollection accepts name schema indexes w =
     (let existing = getCollectionInfos (store w) name;
          w1 = log_cmd (GetCollectionInfos name) w;
          w2 = (if existing = []
                then issue (CreateCollection name schema ''moderate'' ''error'')
                       (createCollection accepts name schema ''moderate'' ''error'') w1
                else issue (CollMod name schema ''moderate'' ''error'')
                       (collMod accepts name schema ''moderate'' ''error'') w1)
      in case indexes of
           None \<Rightarrow> w2
         | Some idxs \<Rightarrow> fold (ensureIndex name) idxs w2)"

subsection \<open>The schemas and the index lists\<close>

definition usersSchema :: bson where
  "usersSchema = BObj [
     (''bsonType'', BStr ''object''),
     (''required'', BArr [BStr ''email'', BStr ''passwordHash'', BStr ''createdAt'']),
     (''additionalProperties'', BBool False),
     (''properties'', BObj [
        (''_id'', BObj [(''bsonType'', BStr ''objectId'')]),
        (''email'', BObj [
           (''bsonType'', BStr ''string''),
           (''description'', BStr ''User email in lowercase''),
           (''minLength'', BInt 5),
           (''maxLength'', BInt 320)]),
        (''passwordHash'', BObj [
           (''bsonType'', BStr ''string''),
           (''description'', BStr ''BCrypt/Argon2 hash of the user's password''),
           (''minLength'', BInt 20)]),
        (''name'', BObj [
           (''bsonType'', BArr [BStr ''string'', BStr ''null'']),
           (''description'', BStr ''Optional display name''),
           (''maxLength'', BInt 120)]),
        (''roles'', BObj [
           (''bsonType'', BArr [BStr ''array'']),
           (''description'', BStr ''User roles''),
           (''items'', BObj [(''bsonType'', BStr ''string'')]),
           (''uniqueItems'', BBool False)]),
        (''createdAt'', BObj [(''bsonType'', BStr ''date'')]),
        (''updatedAt'', BObj [(''bsonType'', BArr [BStr ''date'', BStr ''null''])]),
        (''lastLoginAt'', BObj [(''bsonType'', BArr [BStr ''date'', BStr ''null''])]),
        (''isActive'', BObj [
           (''bsonType'', BStr ''bool''),
           (''description'', BStr ''Soft delete/disable flag''),
           (''default'', BBool True)]),
        (''meta'', BObj [
           (''bsonType'', BArr [BStr ''object'', BStr ''null'']),
           (''description'', BStr ''Arbitrary metadata''),
           (''additionalProperties'', BBool True)])])]"

definition tasksSchema :: bson where
  "tasksSchema = BObj [
     (''bsonType'', BStr ''object''),
     (''required'', BArr [BStr ''title'', BStr ''status'', BStr ''ownerId'', BStr ''createdAt'']),
     (''additionalProperties'', BBool False),
     (''properties'', BObj [
        (''_id'', BObj [(''bsonType'', BStr ''objectId'')]),
        (''title'', BObj [
           (''bsonType'', BStr ''string''),
           (''description'', BStr ''Task title''),
           (''minLength'', BInt 1),
           (''maxLength'', BInt 300)]),
        (''description'', BObj [
           (''bsonType'', BArr [BStr ''string'', BStr ''null'']),
           (''description'', BStr ''Optional details''),
           (''maxLength'', BInt 5000)]),
        (''status'', BObj [
           (''bsonType'', BStr ''string''),
           (''enum'', BArr [BStr ''todo'', BStr ''in_progress'', BStr ''done'', BStr ''archived'']),
           (''description'', BStr ''Task status'')]),
        (''priority'', BObj [
           (''bsonType'', BArr [BStr ''string'', BStr ''int'', BStr ''null'']),
           (''description'', BStr ''Optional priority (low, medium, high) or numeric''),
           (''maxLength'', BInt 20)]),
        (''dueDate'', BObj [
           (''bsonType'', BArr [BStr ''date'', BStr ''null'']),
           (''description'', BStr ''Optional due date'')]),
        (''ownerId'', BObj [
           (''bsonType'', BStr ''objectId''),
           (''description'', BStr ''Reference to users._id'')]),
        (''tags'', BObj [
           (''bsonType'', BArr [BStr ''array'']),
           (''description'', BStr ''Tags for organization''),
           (''items'', BObj [(''bsonType'', BStr ''string'')])]),
        (''createdAt'', BObj [(''bsonType'', BStr ''date'')]),
        (''updatedAt'', BObj [(''bsonType'', BArr [BStr ''date'', BStr ''null''])]),
        (''completedAt'', BObj [(''bsonType'', BArr [BStr ''date'', BStr ''null''])]),
        (''isDeleted'', BObj [
           (''bsonType'', BStr ''bool''),
           (''description'', BStr ''Soft delete''),
           (''default'', BBool False)]),
        (''checklist'', BObj [
           (''bsonType'', BArr [BStr ''array'']),
           (''description'', BStr ''Subtasks/checklist items''),
           (''items'', BObj [
              (''bsonType'', BStr ''object''),
              (''required'', BArr [BStr ''text'', BStr ''done'']),
              (''additionalProperties'', BBool False),
              (''properties'', BObj [
                 (''text'', BObj [(''bsonType'', BStr ''string''), (''minLength'', BInt 1),
                                  (''maxLength'', BInt 1000)]),
                 (''done'', BObj [(''bsonType'', BStr ''bool'')]),
                 (''doneAt'', BObj [(''bsonType'', BArr [BStr ''date'', BStr ''null''])])])])])])]"

definition named :: "string \<Rightarrow> index_options" where
  "named n = no_options\<lparr>opt_name := Some n\<rparr>"

definition usersIndexes :: "index_spec list" where
  "usersIndexes = [
     \<lparr>idx_keys = Some [(''email'', KNum 1)],
      idx_options = Some ((named ''uniq_email'')\<lparr>opt_unique := Some True\<rparr>)\<rparr>,
     \<lparr>idx_keys = Some [(''isActive'', KNum 1)],
      idx_options = Some (named ''idx_isActive'')\<rparr>,
     \<lparr>idx_keys = Some [(''createdAt'', KNum (- 1))],
      idx_options = Some (named ''idx_createdAt_desc'')\<rparr>]"

definition tasksIndexes :: "index_spec list" where
  "tasksIndexes = [
     \<lparr>idx_keys = Some [(''ownerId'', KNum 1), (''status'', KNum 1), (''isDeleted'', KNum 1),
                       (''createdAt'', KNum (- 1))],
      idx_options = Some (named ''idx_owner_status_deleted_created'')\<rparr>,
     \<lparr>idx_keys = Some [(''dueDate'', KNum 1)],
      idx_options = Some (named ''idx_dueDate'')\<rparr>,
     \<lparr>idx_keys = Some [(''title'', KStr ''text''), (''description'', KStr ''text''),
                       (''tags'', KStr ''text'')],
      idx_options = Some ((named ''text_search'')\<lparr>
        opt_weights := Some [(''title'', 10), (''description'', 5), (''tags'', 2)],
        opt_default_language := Some ''english''\<rparr>)\<rparr>,
     \<lparr>idx_keys = Some [(''isDeleted'', KNum 1)],
      idx_options = Some (named ''idx_isDeleted'')\<rparr>,
     \<lparr>idx_keys = Some [(''status'', KNum 1), (''createdAt'', KNum (- 1))],
      idx_options = Some (named ''idx_status_created_desc'')\<rparr>]"

subsection \<open>The seed documents\<close>

definition seed_user :: "bson \<Rightarrow> bson \<Rightarrow> doc" where
  "seed_user uid now = [
     (''_id'', uid),
     (''email'', BStr ''demo@example.com''),
     (''passwordHash'', BStr ''bcrypt$demo-placeholder''),
     (''name'', BStr ''Demo User''),
     (''roles'', BArr [BStr ''user'']),
     (''createdAt'', now),
     (''updatedAt'', BNull),
     (''lastLoginAt'', BNull),
     (''isActive'', BBool True),
     (''meta'', BNull)]"

definition seed_tasks :: "bson \<Rightarrow> bson \<Rightarrow> doc list" where
  "seed_tasks uid now = [
     [(''title'', BStr ''Welcome to your To-Do app''),
      (''description'', BStr ''Edit or delete this task. Create more to get started.''),
      (''status'', BStr ''todo''),
      (''priority'', BStr ''medium''),
      (''dueDate'', BNull),
      (''ownerId'', uid),
      (''tags'', BArr [BStr ''welcome'', BStr ''getting-started'']),
      (''createdAt'', now),
      (''updatedAt'', BNull),
      (''completedAt'', BNull),
      (''isDeleted'', BBool False),
      (''checklist'', BArr [
         BObj [(''text'', BStr ''Explore the app''), (''done'', BBool False), (''doneAt'', BNull)],
         BObj [(''text'', BStr ''Add a new task''), (''done'', BBool False), (''doneAt'', BNull)]])],
     [(''title'', BStr ''Try completing a task''),
      (''description'', BStr ''Mark this task as done''),
      (''status'', BStr ''in_progress''),
      (''priority'', BStr ''low''),
      (''dueDate'', BNull),
      (''ownerId'', uid),
      (''tags'', BArr [BStr ''demo'']),
      (''createdAt'', now),
      (''updatedAt'', BNull),
      (''completedAt'', BNull),
      (''isDeleted'', BBool False),
      (''checklist'', BArr [])]]"

subsection \<open>The top level\<close>

text \<open>
  The two \<^verbatim>\<open>ensureCollection\<close> calls, then the seed block: one test, of the number
  of documents in \<^verbatim>\<open>users\<close>, guards both inserts. \<open>clock\<close> is what \<^verbatim>\<open>new Date()\<close>
  reads.
\<close>

definition seed :: "int \<Rightarrow> world \<Rightarrow> world" where
  "seed clock w =
     (let n = countDocuments (store w) ''users'';
          w1 = log_cmd (CountDocuments ''users'') w
      in if failed w1 = None \<and> n = 0
         then let now = BDate clock;
                  uid = BOid (fresh w1);
                  w2 = w1\<lparr>fresh := Suc (fresh w1)\<rparr>;
                  w3 = insertOne ''users'' (seed_user uid now) w2
              in insertMany ''tasks'' (seed_tasks uid now) w3
         else w1)"

definition script :: "(bson \<Rightarrow> bool) \<Rightarrow> int \<Rightarrow> world \<Rightarrow> world" where
  "script accepts clock w =
     seed clock
       (ensureCollection accepts ''tasks'' tasksSchema (Some tasksIndexes)
         (ensureCollection accepts ''users'' usersSchema (Some usersIndexes) w))"

text \<open>The state a run starts in: a database, nothing issued yet, nothing failed.\<close>

definition start :: "db \<Rightarrow> nat \<Rightarrow> world" where
  "start d n = \<lparr>store = d, trace = [], fresh = n, failed = None\<rparr>"

section \<open>Notions for the statements\<close>

subsection \<open>States of the database\<close>

text \<open>
  The collection \<open>c\<close> exists and carries the schema as validator, with the level
  \<^verbatim>\<open>moderate\<close> and the action \<^verbatim>\<open>error\<close>.
\<close>

definition validated :: "string \<Rightarrow> bson \<Rightarrow> db \<Rightarrow> bool" where
  "validated c schema d =
     (case d c of
        None \<Rightarrow> False
      | Some k \<Rightarrow> c_validator k = Some schema \<and> c_validationLevel k = ''moderate'' \<and>
                  c_validationAction k = ''error'')"

text \<open>
  The collection \<open>c\<close> has the index that \<open>createIndex c ks opts\<close> asks for: its
  index of that name has these keys and these options.
\<close>

definition ensured :: "string \<Rightarrow> index_keys \<Rightarrow> index_options \<Rightarrow> db \<Rightarrow> bool" where
  "ensured c ks opts d =
     (ks \<noteq> [] \<and>
      find (\<lambda>ix. ix_name ix = index_name ks opts) (c_indexes (the_coll d c)) =
        Some \<lparr>ix_name = index_name ks opts, ix_keys = ks, ix_options = opts\<rparr>)"

text \<open>The keys and options of an entry, as the \<^verbatim>\<open>forEach\<close> callback reads them.\<close>

definition declared_keys :: "index_spec \<Rightarrow> index_keys" where
  "declared_keys idx = (case idx_keys idx of None \<Rightarrow> [] | Some k \<Rightarrow> k)"

definition declared_options :: "index_spec \<Rightarrow> index_options" where
  "declared_options idx = (case idx_options idx of None \<Rightarrow> no_options | Some opt \<Rightarrow> opt)"

text \<open>The index of an entry is there, on the collection the callback sends it to.\<close>

definition idx_ensured :: "string \<Rightarrow> index_spec \<Rightarrow> db \<Rightarrow> bool" where
  "idx_ensured name idx d =
     ensured (target name (declared_keys idx) (declared_options idx))
       (declared_keys idx) (declared_options idx) d"

text \<open>
  Two databases compared. \<open>same_docs a d\<close>: every collection has in \<open>d\<close> the
  documents it has in \<open>a\<close>. \<open>grows a d\<close>: every collection of \<open>a\<close> is a
  collection of \<open>d\<close>, and its documents and its indexes in \<open>d\<close> are those of
  \<open>a\<close>, in their order, followed by any new ones. \<open>others_untouched a d\<close>: the
  collections other than \<^verbatim>\<open>users\<close> and \<^verbatim>\<open>tasks\<close> have in \<open>d\<close> the documents
  they have in \<open>a\<close>. \<open>keeps_ensured a d\<close>: an index that is there in \<open>a\<close> is
  there in \<open>d\<close>.
\<close>

definition same_docs :: "db \<Rightarrow> db \<Rightarrow> bool" where
  "same_docs a d = (\<forall>c. c_docs (the_coll d c) = c_docs (the_coll a c))"

definition grows :: "db \<Rightarrow> db \<Rightarrow> bool" where
  "grows a d =
     (\<forall>c. (a c \<noteq> None \<longrightarrow> d c \<noteq> None) \<and>
          (\<exists>xs. c_docs (the_coll d c) = c_docs (the_coll a c) @ xs) \<and>
          (\<exists>ys. c_indexes (the_coll d c) = c_indexes (the_coll a c) @ ys))"

definition others_untouched :: "db \<Rightarrow> db \<Rightarrow> bool" where
  "others_untouched a d =
     (\<forall>c. c \<noteq> ''users'' \<longrightarrow> c \<noteq> ''tasks'' \<longrightarrow> c_docs (the_coll d c) = c_docs (the_coll a c))"

definition keeps_ensured :: "db \<Rightarrow> db \<Rightarrow> bool" where
  "keeps_ensured a d = (\<forall>c ks opts. ensured c ks opts a \<longrightarrow> ensured c ks opts d)"

text \<open>A property of the database that a command keeps whenever it succeeds.\<close>

definition kept_by :: "(db \<Rightarrow> bool) \<Rightarrow> (db \<Rightarrow> error + db) \<Rightarrow> bool" where
  "kept_by P f = (\<forall>d d'. P d \<longrightarrow> f d = Inr d' \<longrightarrow> P d')"

text \<open>The names of the properties a schema lists.\<close>

definition property_names :: "bson \<Rightarrow> string list" where
  "property_names schema =
     (case schema of BObj kw \<Rightarrow> map fst (the_properties (map_of kw ''properties'')) | _ \<Rightarrow> [])"

subsection \<open>Calls\<close>

text \<open>
  The \<open>createIndex\<close> call that the callback issues for an entry, and the call that
  ensures the validator: \<open>createCollection\<close> when the collection is not there,
  \<open>collMod\<close> when it is. \<open>ensure_cmds\<close> are the calls of a whole
  \<open>ensureCollection\<close> that meets no failure.
\<close>

definition index_cmd :: "string \<Rightarrow> index_spec \<Rightarrow> cmd" where
  "index_cmd arg1 idx =
     (let ks = (case idx_keys idx of None \<Rightarrow> [] | Some k \<Rightarrow> k);
          opts = (case idx_options idx of None \<Rightarrow> no_options | Some opt \<Rightarrow> opt)
      in CreateIndex (target arg1 ks opts) ks opts)"

definition validator_cmd :: "string \<Rightarrow> bson \<Rightarrow> db \<Rightarrow> cmd" where
  "validator_cmd name schema d =
     (if d name = None then CreateCollection name schema ''moderate'' ''error''
      else CollMod name schema ''moderate'' ''error'')"

definition ensure_cmds :: "string \<Rightarrow> bson \<Rightarrow> index_spec list option \<Rightarrow> db \<Rightarrow> cmd list" where
  "ensure_cmds name schema indexes d =
     GetCollectionInfos name # validator_cmd name schema d #
     (case indexes of None \<Rightarrow> [] | Some idxs \<Rightarrow> map (index_cmd name) idxs)"

text \<open>The calls of the seed block when \<^verbatim>\<open>users\<close> is empty and nothing fails.\<close>

definition seed_cmds :: "int \<Rightarrow> nat \<Rightarrow> cmd list" where
  "seed_cmds clock n =
     [CountDocuments ''users'',
      InsertOne ''users'' (seed_user (BOid n) (BDate clock)),
      InsertMany ''tasks'' (seed_tasks (BOid n) (BDate clock))]"

text \<open>
  The calls of a run that meets no failure and finds \<^verbatim>\<open>users\<close> empty. Whether the
  validator call for \<^verbatim>\<open>tasks\<close> is \<open>createCollection\<close> or \<open>collMod\<close> is decided
  on the database as the first \<open>ensureCollection\<close> leaves it.
\<close>

definition script_cmds :: "(bson \<Rightarrow> bool) \<Rightarrow> int \<Rightarrow> world \<Rightarrow> cmd list" where
  "script_cmds accepts clock w =
     ensure_cmds ''users'' usersSchema (Some usersIndexes) (store w) @
     ensure_cmds ''tasks'' tasksSchema (Some tasksIndexes)
       (store (ensureCollection accepts ''users'' usersSchema (Some usersIndexes) w)) @
     seed_cmds clock (fresh w)"

fun is_CreateIndex :: "cmd \<Rightarrow> bool" where
  "is_CreateIndex (CreateIndex _ _ _) = True"
| "is_CreateIndex _ = False"

fun is_insert :: "cmd \<Rightarrow> bool" where
  "is_insert (InsertOne _ _) = True"
| "is_insert (InsertMany _ _) = True"
| "is_insert _ = False"

text \<open>The collection a call is sent to.\<close>

fun cmd_collection :: "cmd \<Rightarrow> string" where
  "cmd_collection (GetCollectionInfos c) = c"
| "cmd_collection (CreateCollection c _ _ _) = c"
| "cmd_collection (CollMod c _ _ _) = c"
| "cmd_collection (CreateIndex c _ _) = c"
| "cmd_collection (CountDocuments c) = c"
| "cmd_collection (InsertOne c _) = c"
| "cmd_collection (InsertMany c _) = c"

text \<open>\<open>xs\<close> is what \<open>ys\<close> starts with.\<close>

definition is_prefix :: "'a list \<Rightarrow> 'a list \<Rightarrow> bool" where
  "is_prefix xs ys = (take (length xs) ys = xs)"

text \<open>The first two calls of \<open>ensureCollection\<close>, on their own.\<close>

definition ensure_validator :: "(bson \<Rightarrow> bool) \<Rightarrow> string \<Rightarrow> bson \<Rightarrow> world \<Rightarrow> world" where
  "ensure_validator accepts name schema w =
     (let existing = getCollectionInfos (store w) name;
          w1 = log_cmd (GetCollectionInfos name) w
      in if existing = []
         then issue (CreateCollection name schema ''moderate'' ''error'')
                (createCollection accepts name schema ''moderate'' ''error'') w1
         else issue (CollMod name schema ''moderate'' ''error'')
                (collMod accepts name schema ''moderate'' ''error'') w1)"

subsection \<open>Inputs for the examples\<close>

text \<open>
  A schema the server parses: it uses none of the keywords the server refuses.
\<close>

definition emailSchema :: bson where
  "emailSchema = BObj [
     (''bsonType'', BStr ''object''),
     (''required'', BArr [BStr ''email'']),
     (''properties'', BObj [
        (''email'', BObj [(''bsonType'', BStr ''string''), (''minLength'', BInt 5)])])]"

text \<open>
  The script is written for a server that takes its two schemas as they stand.
  \<open>takes_any\<close> is the parser of such a server; the statements about runs of the
  script that complete are shown not to be empty with it.
\<close>

definition takes_any :: "bson \<Rightarrow> bool" where
  "takes_any schema = True"

text \<open>
  A collection as \<open>ensureCollection\<close> sets it up from nothing: the validator and
  the declared indexes, and no document.
\<close>

definition as_index :: "index_spec \<Rightarrow> index" where
  "as_index idx = \<lparr>ix_name = index_name (declared_keys idx) (declared_options idx),
     ix_keys = declared_keys idx, ix_options = declared_options idx\<rparr>"

definition installed :: "bson \<Rightarrow> index_spec list \<Rightarrow> coll" where
  "installed schema idxs = \<lparr>c_validator = Some schema, c_validationLevel = ''moderate'',
     c_validationAction = ''error'', c_indexes = map as_index idxs, c_docs = []\<rparr>"

text \<open>
  The database a completed run leaves on a server that takes the two schemas, after
  its two tasks have been deleted: both collections with their validators and indexes,
  the seed user in \<^verbatim>\<open>users\<close>, and \<^verbatim>\<open>tasks\<close> empty.
\<close>

definition users_only_db :: db where
  "users_only_db = empty_db(
     ''users'' \<mapsto> (installed usersSchema usersIndexes)\<lparr>
        c_docs := [seed_user (BOid 0) (BDate 0)]\<rparr>,
     ''tasks'' \<mapsto> installed tasksSchema tasksIndexes)"

text \<open>
  Both collections set up as a run leaves them, \<^verbatim>\<open>users\<close> with no document and
  \<^verbatim>\<open>tasks\<close> with one, whose owner is gone.
\<close>

definition old_task :: doc where
  "old_task = [(''_id'', BOid 0), (''title'', BStr ''Old task''), (''status'', BStr ''done''),
     (''ownerId'', BOid 9), (''createdAt'', BDate 0)]"

definition tasks_only_db :: db where
  "tasks_only_db = empty_db(
     ''users'' \<mapsto> installed usersSchema usersIndexes,
     ''tasks'' \<mapsto> (installed tasksSchema tasksIndexes)\<lparr>c_docs := [old_task]\<rparr>)"

text \<open>
  An index entry that takes the name of the unique index on \<^verbatim>\<open>email\<close> for other
  keys.
\<close>

definition clashing_index :: index_spec where
  "clashing_index = \<lparr>idx_keys = Some [(''name'', KNum 1)], idx_options = Some (named ''uniq_email'')\<rparr>"

section \<open>How a call changes the run\<close>

lemma store_issue:
  "store (issue c f w) =
     (if failed w = None then (case f (store w) of Inl e \<Rightarrow> store w | Inr d \<Rightarrow> d) else store w)"
  by (simp add: issue_def split: sum.splits)

lemma failed_issue:
  "failed (issue c f w) =
     (if failed w = None then (case f (store w) of Inl e \<Rightarrow> Some e | Inr d \<Rightarrow> None) else failed w)"
  by (simp add: issue_def split: sum.splits)

lemma trace_issue:
  "trace (issue c f w) = (if failed w = None then trace w @ [c] else trace w)"
  by (simp add: issue_def split: sum.splits)

lemma fresh_issue: "fresh (issue c f w) = fresh w"
  by (simp add: issue_def split: sum.splits)

lemma issue_failed: "failed w \<noteq> None \<Longrightarrow> issue c f w = w"
  by (simp add: issue_def)

lemma log_cmd_simps:
  "store (log_cmd c w) = store w"
  "failed (log_cmd c w) = failed w"
  "fresh (log_cmd c w) = fresh w"
  "trace (log_cmd c w) = (if failed w = None then trace w @ [c] else trace w)"
  by (simp_all add: log_cmd_def)

lemma put_failed: "failed w \<noteq> None \<Longrightarrow> put c dc w = w"
  by (simp add: put_def)

lemma store_put:
  "store (put c dc w) =
     (if failed w = None
      then (case insertDoc c (with_id (fresh w) dc) (store w) of Inl e \<Rightarrow> store w | Inr d \<Rightarrow> d)
      else store w)"
  by (simp add: put_def split: sum.splits)

lemma failed_put:
  "failed (put c dc w) =
     (if failed w = None
      then (case insertDoc c (with_id (fresh w) dc) (store w) of Inl e \<Rightarrow> Some e | Inr d \<Rightarrow> None)
      else failed w)"
  by (simp add: put_def split: sum.splits)

lemma trace_put: "trace (put c dc w) = trace w"
  by (simp add: put_def split: sum.splits)

lemma ensureIndex_failed: "failed w \<noteq> None \<Longrightarrow> ensureIndex name idx w = w"
  by (simp add: ensureIndex_def Let_def issue_failed)

lemma fold_ensureIndex_failed: "failed w \<noteq> None \<Longrightarrow> fold (ensureIndex name) idxs w = w"
  by (induction idxs) (simp_all add: ensureIndex_failed)

lemma ensureCollection_failed: "failed w \<noteq> None \<Longrightarrow> ensureCollection accepts name schema indexes w = w"
  by (cases indexes) (simp_all add: ensureCollection_def Let_def log_cmd_def issue_failed fold_ensureIndex_failed)

lemma seed_failed_Some: "failed w = Some e \<Longrightarrow> seed clock w = w"
  by (simp add: seed_def log_cmd_def Let_def)

lemma seed_failed: "failed w \<noteq> None \<Longrightarrow> seed clock w = w"
  using seed_failed_Some [of w] by (cases "failed w") simp_all

section \<open>Properties every call keeps\<close>

lemma kept_issue: "kept_by P f \<Longrightarrow> P (store w) \<Longrightarrow> P (store (issue c f w))"
  by (auto simp: kept_by_def store_issue split: sum.splits)

lemma kept_ensureIndex:
  "(\<And>c ks opts. kept_by P (createIndex c ks opts)) \<Longrightarrow> P (store w) \<Longrightarrow>
     P (store (ensureIndex name idx w))"
  by (simp add: ensureIndex_def Let_def kept_issue)

lemma kept_fold_ensureIndex:
  "(\<And>c ks opts. kept_by P (createIndex c ks opts)) \<Longrightarrow> P (store w) \<Longrightarrow>
     P (store (fold (ensureIndex name) idxs w))"
  by (induction idxs arbitrary: w) (simp_all add: kept_ensureIndex)

lemma kept_ensureCollection:
  assumes "\<And>c ks opts. kept_by P (createIndex c ks opts)"
    and "kept_by P (createCollection accepts name schema ''moderate'' ''error'')"
    and "kept_by P (collMod accepts name schema ''moderate'' ''error'')"
    and "P (store w)"
  shows "P (store (ensureCollection accepts name schema indexes w))"
proof -
  let ?w1 = "log_cmd (GetCollectionInfos name) w"
  let ?w2 = "if getCollectionInfos (store w) name = []
             then issue (CreateCollection name schema ''moderate'' ''error'')
                    (createCollection accepts name schema ''moderate'' ''error'') ?w1
             else issue (CollMod name schema ''moderate'' ''error'')
                    (collMod accepts name schema ''moderate'' ''error'') ?w1"
  have "P (store ?w1)" using assms(4) by (simp add: log_cmd_simps)
  then have w2: "P (store ?w2)" using assms(2,3) by (simp add: kept_issue)
  show ?thesis
  proof (cases indexes)
    case None
    then show ?thesis using w2 by (simp add: ensureCollection_def Let_def)
  next
    case (Some idxs)
    then show ?thesis
      using kept_fold_ensureIndex [of P ?w2 name idxs] assms(1) w2
      by (simp add: ensureCollection_def Let_def)
  qed
qed

lemma kept_put:
  "(\<And>dc. kept_by P (insertDoc c dc)) \<Longrightarrow> P (store w) \<Longrightarrow> P (store (put c dc w))"
  by (auto simp: kept_by_def store_put split: sum.splits)

lemma kept_fold_put:
  "(\<And>dc. kept_by P (insertDoc c dc)) \<Longrightarrow> P (store w) \<Longrightarrow> P (store (fold (put c) dcs w))"
  by (induction dcs arbitrary: w) (simp_all add: kept_put)

lemma kept_insertOne:
  "(\<And>dc. kept_by P (insertDoc c dc)) \<Longrightarrow> P (store w) \<Longrightarrow> P (store (insertOne c dc w))"
  by (simp add: insertOne_def kept_put log_cmd_simps)

lemma kept_insertMany:
  "(\<And>dc. kept_by P (insertDoc c dc)) \<Longrightarrow> P (store w) \<Longrightarrow> P (store (insertMany c dcs w))"
  by (simp add: insertMany_def kept_fold_put log_cmd_simps)

lemma kept_seed:
  assumes "\<And>dc. kept_by P (insertDoc ''users'' dc)"
    and "\<And>dc. kept_by P (insertDoc ''tasks'' dc)"
    and "P (store w)"
  shows "P (store (seed clock w))"
proof -
  let ?w1 = "log_cmd (CountDocuments ''users'') w"
  have 1: "P (store ?w1)" using assms(3) by (simp add: log_cmd_simps)
  have 2: "P (store (?w1\<lparr>fresh := m\<rparr>))" for m using 1 by simp
  have 3: "P (store (insertMany ''tasks'' dcs (insertOne ''users'' dc (?w1\<lparr>fresh := m\<rparr>))))"
    for dcs dc m
    by (rule kept_insertMany [of P, OF assms(2)], rule kept_insertOne [of P, OF assms(1)], rule 2)
  show ?thesis
  proof (cases "failed ?w1 = None \<and> countDocuments (store w) ''users'' = 0")
    case True
    show ?thesis unfolding seed_def Let_def if_P [OF True] by (rule 3)
  next
    case False
    show ?thesis unfolding seed_def Let_def if_not_P [OF False] by (rule 1)
  qed
qed

lemma kept_script:
  assumes "\<And>c ks opts. kept_by P (createIndex c ks opts)"
    and "\<And>dc. kept_by P (insertDoc ''users'' dc)"
    and "\<And>dc. kept_by P (insertDoc ''tasks'' dc)"
    and "kept_by P (createCollection accepts ''users'' usersSchema ''moderate'' ''error'')"
    and "kept_by P (collMod accepts ''users'' usersSchema ''moderate'' ''error'')"
    and "kept_by P (createCollection accepts ''tasks'' tasksSchema ''moderate'' ''error'')"
    and "kept_by P (collMod accepts ''tasks'' tasksSchema ''moderate'' ''error'')"
    and "P (store w)"
  shows "P (store (script accepts clock w))"
  unfolding script_def
  by (rule kept_seed [of P, OF assms(2) assms(3)],
      rule kept_ensureCollection [of P, OF assms(1) assms(6) assms(7)],
      rule kept_ensureCollection [of P, OF assms(1) assms(4) assms(5)],
      rule assms(8))

section \<open>What the database commands keep\<close>

lemma createCollection_Inr:
  "createCollection accepts c s l a d = Inr d' \<Longrightarrow>
     d c = None \<and> d' = d(c \<mapsto> empty_coll\<lparr>c_validator := Some s,
       c_validationLevel := l, c_validationAction := a\<rparr>)"
  by (auto simp: createCollection_def split: option.splits if_splits)

lemma collMod_Inr:
  "collMod accepts c s l a d = Inr d' \<Longrightarrow>
     (\<exists>k. d c = Some k \<and> d' = d(c \<mapsto> k\<lparr>c_validator := Some s,
       c_validationLevel := l, c_validationAction := a\<rparr>))"
  by (auto simp: collMod_def split: option.splits if_splits)

lemma createIndex_Inr:
  "createIndex c ks opts d = Inr d' \<Longrightarrow>
     ks \<noteq> [] \<and>
     (d' = d \<and> ensured c ks opts d \<or>
      find (\<lambda>ix. ix_name ix = index_name ks opts) (c_indexes (the_coll d c)) = None \<and>
      d' = d(c \<mapsto> (the_coll d c)\<lparr>c_indexes := c_indexes (the_coll d c) @
             [\<lparr>ix_name = index_name ks opts, ix_keys = ks, ix_options = opts\<rparr>]\<rparr>))"
  unfolding createIndex_def Let_def ensured_def
  by (auto split: option.splits if_splits dest: find_Some_iff [THEN iffD1])

lemma insertDoc_Inr:
  "insertDoc c dc d = Inr d' \<Longrightarrow>
     \<not> validation_refuses (the_coll d c) dc \<and> \<not> duplicate_key (the_coll d c) dc \<and>
     d' = d(c \<mapsto> (the_coll d c)\<lparr>c_docs := c_docs (the_coll d c) @ [dc]\<rparr>)"
  unfolding insertDoc_def Let_def by (auto split: if_splits)

lemma the_coll_upd:
  "the_coll (d(c \<mapsto> k)) c' = (if c' = c then k else the_coll d c')"
  by (simp add: the_coll_def)

lemma find_append_None: "find P xs = None \<Longrightarrow> find P (xs @ ys) = find P ys"
  by (induction xs) (auto split: if_splits)

lemma ensured_createIndex: "createIndex c ks opts d = Inr d' \<Longrightarrow> ensured c ks opts d'"
  by (drule createIndex_Inr) (auto simp: ensured_def the_coll_upd find_append_None)

lemma ensured_stable: "ensured c ks opts d \<Longrightarrow> createIndex c ks opts d = Inr d"
  unfolding createIndex_def Let_def ensured_def by auto

lemma find_append_Some: "find P xs = Some x \<Longrightarrow> find P (xs @ ys) = Some x"
  by (induction xs) auto

lemma kept_ensured_createIndex: "kept_by (ensured c ks opts) (createIndex c' ks' opts')"
  unfolding kept_by_def
  by (auto dest!: createIndex_Inr simp: ensured_def the_coll_upd find_append_Some)

lemma kept_ensured_insertDoc: "kept_by (ensured c ks opts) (insertDoc c' dc)"
  unfolding kept_by_def
  by (auto dest!: insertDoc_Inr simp: ensured_def the_coll_upd)

lemma kept_ensured_createCollection: "kept_by (ensured c ks opts) (createCollection accepts c' s l a)"
  unfolding kept_by_def
  by (auto dest!: createCollection_Inr simp: ensured_def the_coll_upd the_coll_def empty_coll_def)

lemma kept_ensured_collMod: "kept_by (ensured c ks opts) (collMod accepts c' s l a)"
  unfolding kept_by_def
  by (auto dest!: collMod_Inr simp: ensured_def the_coll_upd the_coll_def)

lemma kept_validated_createIndex: "kept_by (validated c s) (createIndex c' ks opts)"
  unfolding kept_by_def
  by (auto dest!: createIndex_Inr simp: validated_def the_coll_def split: option.splits if_splits)

lemma kept_validated_insertDoc: "kept_by (validated c s) (insertDoc c' dc)"
  unfolding kept_by_def
  by (auto dest!: insertDoc_Inr simp: validated_def the_coll_def split: option.splits if_splits)

lemma kept_validated_createCollection: "kept_by (validated c s) (createCollection accepts c' s' l a)"
  unfolding kept_by_def
  by (auto dest!: createCollection_Inr simp: validated_def split: option.splits if_splits)

lemma kept_validated_collMod:
  "c' \<noteq> c \<or> s' = s \<Longrightarrow> kept_by (validated c s) (collMod accepts c' s' ''moderate'' ''error'')"
  unfolding kept_by_def
  by (auto dest!: collMod_Inr simp: validated_def split: option.splits if_splits)

lemma same_docs_trans: "same_docs a b \<Longrightarrow> same_docs b c \<Longrightarrow> same_docs a c"
  by (simp add: same_docs_def)

lemma grows_refl: "grows d d"
  by (simp add: grows_def)

lemma grows_trans:
  assumes "grows a b" and "grows b c"
  shows "grows a c"
  unfolding grows_def
proof (intro allI conjI)
  fix x
  show "a x \<noteq> None \<longrightarrow> c x \<noteq> None" using assms by (simp add: grows_def)
  obtain xs where xs: "c_docs (the_coll b x) = c_docs (the_coll a x) @ xs"
    using assms(1) unfolding grows_def by blast
  obtain xs' where xs': "c_docs (the_coll c x) = c_docs (the_coll b x) @ xs'"
    using assms(2) unfolding grows_def by blast
  show "\<exists>zs. c_docs (the_coll c x) = c_docs (the_coll a x) @ zs"
    using xs xs' by simp
  obtain ys where ys: "c_indexes (the_coll b x) = c_indexes (the_coll a x) @ ys"
    using assms(1) unfolding grows_def by blast
  obtain ys' where ys': "c_indexes (the_coll c x) = c_indexes (the_coll b x) @ ys'"
    using assms(2) unfolding grows_def by blast
  show "\<exists>zs. c_indexes (the_coll c x) = c_indexes (the_coll a x) @ zs"
    using ys ys' by simp
qed

lemma step_createCollection:
  "createCollection accepts c s l m d = Inr d' \<Longrightarrow> same_docs d d' \<and> grows d d'"
  by (drule createCollection_Inr)
     (auto simp: same_docs_def grows_def the_coll_def empty_coll_def)

lemma step_collMod:
  "collMod accepts c s l m d = Inr d' \<Longrightarrow> same_docs d d' \<and> grows d d'"
  by (drule collMod_Inr) (auto simp: same_docs_def grows_def the_coll_def)

lemma step_createIndex:
  "createIndex c ks opts d = Inr d' \<Longrightarrow> same_docs d d' \<and> grows d d'"
  by (drule createIndex_Inr) (auto simp: same_docs_def grows_def the_coll_upd)

lemma step_insertDoc: "insertDoc c dc d = Inr d' \<Longrightarrow> grows d d'"
  by (drule insertDoc_Inr) (auto simp: grows_def the_coll_upd)

lemma kept_same_docs_createIndex: "kept_by (same_docs a) (createIndex c ks opts)"
  unfolding kept_by_def using step_createIndex same_docs_trans by blast

lemma kept_same_docs_createCollection: "kept_by (same_docs a) (createCollection accepts c s l m)"
  unfolding kept_by_def using step_createCollection same_docs_trans by blast

lemma kept_same_docs_collMod: "kept_by (same_docs a) (collMod accepts c s l m)"
  unfolding kept_by_def using step_collMod same_docs_trans by blast

lemma kept_grows_createIndex: "kept_by (grows a) (createIndex c ks opts)"
  unfolding kept_by_def using step_createIndex grows_trans by blast

lemma kept_grows_createCollection: "kept_by (grows a) (createCollection accepts c s l m)"
  unfolding kept_by_def using step_createCollection grows_trans by blast

lemma kept_grows_collMod: "kept_by (grows a) (collMod accepts c s l m)"
  unfolding kept_by_def using step_collMod grows_trans by blast

lemma kept_grows_insertDoc: "kept_by (grows a) (insertDoc c dc)"
  unfolding kept_by_def using step_insertDoc grows_trans by blast

section \<open>The seed documents and the validators\<close>

lemmas schema_ok_defs =
  type_ok_def enum_ok_def minLength_ok_def maxLength_ok_def required_ok_def the_properties_def

lemma seed_user_ok: "json_schema_ok usersSchema (BObj (seed_user (BOid u) (BDate t)))"
  by (simp add: usersSchema_def seed_user_def schema_ok_defs)

lemma seed_tasks_ok:
  "list_all (\<lambda>dc. json_schema_ok tasksSchema (BObj (with_id n dc))) (seed_tasks (BOid u) (BDate t))"
  by (simp add: tasksSchema_def seed_tasks_def with_id_def schema_ok_defs)

text \<open>
  C10: every seed document the script inserts satisfies the validator the script
  installs on its collection. The seeded user is accepted by \<open>usersSchema\<close>: it has
  the required fields \<^verbatim>\<open>email\<close>, \<^verbatim>\<open>passwordHash\<close> and \<^verbatim>\<open>createdAt\<close>, its email has
  between 5 and 320 characters, its password hash at least 20, and every field of it is
  one of the schema's properties. Both seeded tasks, with the \<^verbatim>\<open>_id\<close> they are written
  under, are accepted by \<open>tasksSchema\<close> (which checks each checklist item against the
  item schema); they have the required fields \<^verbatim>\<open>title\<close>, \<^verbatim>\<open>status\<close>, \<^verbatim>\<open>ownerId\<close> and
  \<^verbatim>\<open>createdAt\<close>, and a status of the enumeration.
\<close>

theorem seed_documents_validate:
  "json_schema_ok usersSchema (BObj (seed_user (BOid u) (BDate t))) \<and>
   list_all (\<lambda>dc. json_schema_ok tasksSchema (BObj (with_id n dc)))
     (seed_tasks (BOid u) (BDate t)) \<and>
   list_all (\<lambda>f. f \<in> fst ` set (seed_user (BOid u) (BDate t)))
     [''email'', ''passwordHash'', ''createdAt''] \<and>
   (\<exists>e. map_of (seed_user (BOid u) (BDate t)) ''email'' = Some (BStr e) \<and>
        5 \<le> length e \<and> length e \<le> 320) \<and>
   (\<exists>h. map_of (seed_user (BOid u) (BDate t)) ''passwordHash'' = Some (BStr h) \<and>
        20 \<le> length h) \<and>
   list_all (\<lambda>f. f \<in> set (property_names usersSchema))
     (map fst (seed_user (BOid u) (BDate t))) \<and>
   list_all (\<lambda>dc.
       list_all (\<lambda>f. f \<in> fst ` set dc) [''title'', ''status'', ''ownerId'', ''createdAt''] \<and>
       map_of dc ''status'' \<in> Some ` BStr ` {''todo'', ''in_progress'', ''done'', ''archived''})
     (seed_tasks (BOid u) (BDate t))"
  using seed_user_ok [of u t] seed_tasks_ok [of n u t]
  by (simp add: seed_user_def seed_tasks_def usersSchema_def property_names_def
        the_properties_def)

theorem seed_documents_validate_witness:
  "json_schema_ok usersSchema (BObj (seed_user (BOid 0) (BDate 0))) \<and>
   list_all (\<lambda>dc. json_schema_ok tasksSchema (BObj (with_id 1 dc)))
     (seed_tasks (BOid 0) (BDate 0))"
  using seed_documents_validate [of 0 0 1] by simp

section \<open>The calls a run issues\<close>

lemma trace_ensureIndex:
  "trace (ensureIndex name idx w) =
     (if failed w = None then trace w @ [index_cmd name idx] else trace w)"
  by (simp add: ensureIndex_def index_cmd_def Let_def trace_issue)

lemma failed_ensureIndex_None: "failed (ensureIndex name idx w) = None \<Longrightarrow> failed w = None"
  by (auto simp: ensureIndex_def Let_def failed_issue split: if_splits)

lemma failed_fold_ensureIndex_None:
  "failed (fold (ensureIndex name) idxs w) = None \<Longrightarrow> failed w = None"
  by (induction idxs arbitrary: w) (auto dest: failed_ensureIndex_None)

lemma trace_fold_ensureIndex:
  "\<exists>k. trace (fold (ensureIndex name) idxs w) = trace w @ take k (map (index_cmd name) idxs) \<and>
       (failed (fold (ensureIndex name) idxs w) = None \<longrightarrow> k = length idxs)"
proof (induction idxs arbitrary: w)
  case Nil
  show ?case by simp
next
  case (Cons x xs)
  let ?w' = "ensureIndex name x w"
  from Cons.IH [of ?w'] obtain k where kk:
    "trace (fold (ensureIndex name) xs ?w') = trace ?w' @ take k (map (index_cmd name) xs) \<and>
     (failed (fold (ensureIndex name) xs ?w') = None \<longrightarrow> k = length xs)" ..
  note k = conjunct1 [OF kk] conjunct2 [OF kk]
  show ?case
  proof (cases "failed w = None")
    case True
    then have a: "trace (fold (ensureIndex name) (x # xs) w) =
        trace w @ take (Suc k) (map (index_cmd name) (x # xs))"
      using k(1) by (simp add: trace_ensureIndex)
    have b: "failed (fold (ensureIndex name) (x # xs) w) = None \<longrightarrow> Suc k = length (x # xs)"
      using k(2) by simp
    show ?thesis by (rule exI [of _ "Suc k"]) (rule conjI [OF a b])
  next
    case False
    then have "fold (ensureIndex name) (x # xs) w = w"
      by (rule fold_ensureIndex_failed)
    then have "trace (fold (ensureIndex name) (x # xs) w) =
        trace w @ take 0 (map (index_cmd name) (x # xs)) \<and>
        (failed (fold (ensureIndex name) (x # xs) w) = None \<longrightarrow> 0 = length (x # xs))"
      using False by simp
    then show ?thesis by (rule exI [of _ 0])
  qed
qed

lemma ensureCollection_eq:
  "ensureCollection accepts name schema indexes w =
     (case indexes of
        None \<Rightarrow> ensure_validator accepts name schema w
      | Some idxs \<Rightarrow> fold (ensureIndex name) idxs (ensure_validator accepts name schema w))"
  by (simp add: ensureCollection_def ensure_validator_def Let_def split: option.splits)

lemma trace_ensure_validator:
  "failed w = None \<Longrightarrow>
     trace (ensure_validator accepts name schema w) =
       trace w @ [GetCollectionInfos name, validator_cmd name schema (store w)]"
  by (auto simp: ensure_validator_def Let_def getCollectionInfos_def log_cmd_simps trace_issue
      validator_cmd_def split: option.splits)

lemma ensure_validator_ok:
  assumes "failed w = None" and "accepts schema"
  shows "failed (ensure_validator accepts name schema w) = None"
    and "validated name schema (store (ensure_validator accepts name schema w))"
  using assms
  by (auto simp: ensure_validator_def Let_def getCollectionInfos_def log_cmd_simps failed_issue
      store_issue createCollection_def collMod_def validated_def split: option.splits)

lemma ensure_validator_refused:
  assumes "failed w = None" and "\<not> accepts schema"
  shows "failed (ensure_validator accepts name schema w) = Some FailedToParse"
    and "store (ensure_validator accepts name schema w) = store w"
  using assms
  by (auto simp: ensure_validator_def Let_def getCollectionInfos_def log_cmd_simps failed_issue
      store_issue createCollection_def collMod_def split: option.splits)

lemma ensure_validator_failed:
  "failed w \<noteq> None \<Longrightarrow> ensure_validator accepts name schema w = w"
  by (simp add: ensure_validator_def Let_def log_cmd_def issue_failed)

lemma ensureCollection_refused:
  assumes "failed w = None" and "\<not> accepts schema"
  shows "failed (ensureCollection accepts name schema indexes w) = Some FailedToParse"
    and "store (ensureCollection accepts name schema indexes w) = store w"
    and "trace (ensureCollection accepts name schema indexes w) =
           trace w @ [GetCollectionInfos name, validator_cmd name schema (store w)]"
    and "ensureCollection accepts name schema indexes w = ensure_validator accepts name schema w"
proof -
  let ?v = "ensure_validator accepts name schema w"
  note r = ensure_validator_refused [where accepts = accepts and schema = schema, OF assms]
  have f: "failed ?v \<noteq> None" using r(1) [of name] by simp
  show eq: "ensureCollection accepts name schema indexes w = ?v"
    using fold_ensureIndex_failed [OF f] by (cases indexes) (simp_all add: ensureCollection_eq)
  show "failed (ensureCollection accepts name schema indexes w) = Some FailedToParse"
    unfolding eq by (rule r(1))
  show "store (ensureCollection accepts name schema indexes w) = store w"
    unfolding eq by (rule r(2))
  show "trace (ensureCollection accepts name schema indexes w) =
           trace w @ [GetCollectionInfos name, validator_cmd name schema (store w)]"
    unfolding eq by (rule trace_ensure_validator [OF assms(1)])
qed

lemma ensureCollection_completed:
  assumes "failed (ensureCollection accepts name schema indexes w) = None"
  shows "failed w = None" and "accepts schema"
proof -
  show ok: "failed w = None"
    using assms ensureCollection_failed [of w accepts name schema indexes]
    by (cases "failed w") auto
  show "accepts schema"
    using assms
      ensureCollection_refused(1) [where accepts = accepts and schema = schema
        and name = name and indexes = indexes, OF ok]
    by (cases "accepts schema") auto
qed

lemma trace_ensureCollection:
  assumes "failed w = None"
  shows "\<exists>k. trace (ensureCollection accepts name schema indexes w) =
             trace w @ take (Suc (Suc k)) (ensure_cmds name schema indexes (store w)) \<and>
           (failed (ensureCollection accepts name schema indexes w) = None \<longrightarrow>
              trace (ensureCollection accepts name schema indexes w) =
                trace w @ ensure_cmds name schema indexes (store w))"
proof (cases indexes)
  case None
  then show ?thesis
    using trace_ensure_validator [OF assms, of accepts name schema]
    by (simp add: ensureCollection_eq ensure_cmds_def)
next
  case (Some idxs)
  let ?v = "ensure_validator accepts name schema w"
  from trace_fold_ensureIndex [of name idxs ?v] obtain k where kk:
    "trace (fold (ensureIndex name) idxs ?v) = trace ?v @ take k (map (index_cmd name) idxs) \<and>
     (failed (fold (ensureIndex name) idxs ?v) = None \<longrightarrow> k = length idxs)" ..
  note k = conjunct1 [OF kk] conjunct2 [OF kk]
  have a: "trace (ensureCollection accepts name schema indexes w) =
      trace w @ take (Suc (Suc k)) (ensure_cmds name schema indexes (store w))"
    using k(1) Some trace_ensure_validator [OF assms, of accepts name schema]
    by (simp add: ensureCollection_eq ensure_cmds_def)
  have b: "failed (ensureCollection accepts name schema indexes w) = None \<longrightarrow>
      trace (ensureCollection accepts name schema indexes w) =
        trace w @ ensure_cmds name schema indexes (store w)"
    using k Some trace_ensure_validator [OF assms, of accepts name schema]
    by (simp add: ensureCollection_eq ensure_cmds_def)
  show ?thesis by (rule exI [of _ k]) (rule conjI [OF a b])
qed

lemma index_cmd_eq:
  "index_cmd name idx =
     CreateIndex (target name (declared_keys idx) (declared_options idx))
       (declared_keys idx) (declared_options idx)"
  by (simp add: index_cmd_def declared_keys_def declared_options_def Let_def)

lemma ensureIndex_eq:
  "ensureIndex name idx w =
     issue (index_cmd name idx)
       (createIndex (target name (declared_keys idx) (declared_options idx))
          (declared_keys idx) (declared_options idx)) w"
  by (simp add: ensureIndex_def index_cmd_def declared_keys_def declared_options_def Let_def)

lemmas db_defs =
  getCollectionInfos_def createCollection_def collMod_def createIndex_def countDocuments_def
  insertDoc_def the_coll_def empty_coll_def empty_db_def index_name_def is_text_def
  is_unique_def key_of_def validation_refuses_def duplicate_key_def

lemmas run_defs =
  ensureCollection_def ensureIndex_def issue_def log_cmd_def put_def insertOne_def
  insertMany_def start_def target_def local_name_def or_else_def generated_name_def
  no_options_def named_def with_id_def next_fresh_def

lemma parses_emailSchema: "parses emailSchema"
  by (simp add: emailSchema_def subschemas_def supported_keywords_def at_def)

lemma usersSchema_refused: "\<not> parses usersSchema"
  by (simp add: usersSchema_def subschemas_def supported_keywords_def at_def)

lemma tasksSchema_refused: "\<not> parses tasksSchema"
  by (simp add: tasksSchema_def subschemas_def supported_keywords_def at_def)

lemma users_run_completes:
  "failed (ensureCollection parses ''users'' emailSchema (Some usersIndexes) (start empty_db 0)) = None"
  by (simp add: run_defs db_defs usersIndexes_def Let_def parses_emailSchema)

text \<open>
  C3, as stated, fails: an entry whose options name another collection is indexed there.
  Here \<open>ensureCollection\<close> is called for \<^verbatim>\<open>users\<close>, with a schema the server
  parses and one entry that carries \<^verbatim>\<open>collection: "tasks"\<close>; its \<open>createIndex\<close>
  goes to \<^verbatim>\<open>tasks\<close>, and none goes to \<^verbatim>\<open>users\<close>.
\<close>

theorem index_on_other_collection:
  "trace (ensureCollection parses ''users'' emailSchema
      (Some [\<lparr>idx_keys = Some [(''email'', KNum 1)],
              idx_options = Some ((named ''uniq_email'')\<lparr>opt_collection := Some ''tasks''\<rparr>)\<rparr>])
      (start empty_db 0)) =
     [GetCollectionInfos ''users'',
      CreateCollection ''users'' emailSchema ''moderate'' ''error'',
      CreateIndex ''tasks'' [(''email'', KNum 1)]
        ((named ''uniq_email'')\<lparr>opt_collection := Some ''tasks''\<rparr>)] \<and>
   CreateIndex ''users'' [(''email'', KNum 1)]
        ((named ''uniq_email'')\<lparr>opt_collection := Some ''tasks''\<rparr>)
     \<notin> set (trace (ensureCollection parses ''users'' emailSchema
      (Some [\<lparr>idx_keys = Some [(''email'', KNum 1)],
              idx_options = Some ((named ''uniq_email'')\<lparr>opt_collection := Some ''tasks''\<rparr>)\<rparr>])
      (start empty_db 0)))"
  by (simp add: run_defs db_defs Let_def parses_emailSchema)

lemma target_no_collection:
  "opt_collection opts = None \<or> opt_collection opts = Some [] \<or> local_name ks opts = [] \<Longrightarrow>
     target name ks opts = name"
  by (auto simp: target_def or_else_def)

lemma target_collection:
  "opt_collection opts = Some c \<Longrightarrow> c \<noteq> [] \<Longrightarrow> local_name ks opts \<noteq> [] \<Longrightarrow>
     target name ks opts = c"
  by (simp add: target_def or_else_def)

text \<open>
  C3, as amended: in a call of \<open>ensureCollection\<close> that completes, the calls issued
  after the two for the validator are one \<open>createIndex\<close> for each entry of the
  list, in order, with the entry's keys and options (empty ones for a missing member).
  The call goes to the collection the entry's \<^verbatim>\<open>collection\<close> option names when that
  option is a non-empty string and the index name is not empty, and to the collection of
  the \<open>name\<close> argument otherwise. The entries of \<open>usersIndexes\<close> and
  \<open>tasksIndexes\<close> have no such option: each of their indexes goes to its own
  collection.
\<close>

theorem ensureCollection_index_calls:
  "(failed w = None \<and> failed (ensureCollection accepts name schema (Some idxs) w) = None \<longrightarrow>
      trace (ensureCollection accepts name schema (Some idxs) w) =
        trace w @ GetCollectionInfos name # validator_cmd name schema (store w) #
          map (\<lambda>idx. CreateIndex (target name (declared_keys idx) (declared_options idx))
                 (declared_keys idx) (declared_options idx)) idxs) \<and>
   (opt_collection opts = None \<or> opt_collection opts = Some [] \<or> local_name ks opts = [] \<longrightarrow>
      target name ks opts = name) \<and>
   (opt_collection opts = Some c \<and> c \<noteq> [] \<and> local_name ks opts \<noteq> [] \<longrightarrow>
      target name ks opts = c) \<and>
   list_all (\<lambda>x. cmd_collection x = ''users'') (map (index_cmd ''users'') usersIndexes) \<and>
   list_all (\<lambda>x. cmd_collection x = ''tasks'') (map (index_cmd ''tasks'') tasksIndexes)"
proof -
  have "trace (ensureCollection accepts name schema (Some idxs) w) =
        trace w @ GetCollectionInfos name # validator_cmd name schema (store w) #
          map (\<lambda>idx. CreateIndex (target name (declared_keys idx) (declared_options idx))
                 (declared_keys idx) (declared_options idx)) idxs"
    if "failed w = None" and "failed (ensureCollection accepts name schema (Some idxs) w) = None"
    using trace_ensureCollection [OF that(1), of accepts name schema "Some idxs"] that(2)
    by (auto simp: ensure_cmds_def index_cmd_eq)
  moreover have "list_all (\<lambda>x. cmd_collection x = ''users'') (map (index_cmd ''users'') usersIndexes)"
    by (simp add: usersIndexes_def index_cmd_def target_def local_name_def or_else_def
        named_def no_options_def Let_def)
  moreover have "list_all (\<lambda>x. cmd_collection x = ''tasks'') (map (index_cmd ''tasks'') tasksIndexes)"
    by (simp add: tasksIndexes_def index_cmd_def target_def local_name_def or_else_def
        named_def no_options_def Let_def)
  ultimately show ?thesis
    using target_no_collection [of opts ks name] target_collection [of opts c ks name]
    by simp
qed

theorem ensureCollection_index_calls_witness:
  "failed (start empty_db 0) = None \<and>
   failed (ensureCollection parses ''users'' emailSchema (Some usersIndexes) (start empty_db 0)) = None \<and>
   trace (ensureCollection parses ''users'' emailSchema (Some usersIndexes) (start empty_db 0)) =
     [GetCollectionInfos ''users'',
      CreateCollection ''users'' emailSchema ''moderate'' ''error'',
      CreateIndex ''users'' [(''email'', KNum 1)]
        ((named ''uniq_email'')\<lparr>opt_unique := Some True\<rparr>),
      CreateIndex ''users'' [(''isActive'', KNum 1)] (named ''idx_isActive''),
      CreateIndex ''users'' [(''createdAt'', KNum (- 1))] (named ''idx_createdAt_desc'')]"
proof -
  have 1: "failed (start empty_db 0) = None" by (simp add: start_def)
  have 2: "failed (ensureCollection parses ''users'' emailSchema (Some usersIndexes) (start empty_db 0)) = None"
    by (rule users_run_completes)
  show ?thesis
    using ensureCollection_index_calls [of "start empty_db 0" parses "''users''" emailSchema
        usersIndexes no_options "[]" "[]"] 1 2
    by (simp add: validator_cmd_def start_def empty_db_def usersIndexes_def declared_keys_def
        declared_options_def target_def local_name_def or_else_def named_def no_options_def)
qed

section \<open>The validator step\<close>

lemma same_docs_refl: "same_docs d d"
  by (simp add: same_docs_def)

lemma same_docs_ensureCollection:
  "same_docs a (store w) \<Longrightarrow> same_docs a (store (ensureCollection accepts name schema indexes w))"
  by (rule kept_ensureCollection [of "same_docs a"])
     (simp_all add: kept_same_docs_createIndex kept_same_docs_createCollection
        kept_same_docs_collMod)

lemma grows_ensureCollection:
  "grows a (store w) \<Longrightarrow> grows a (store (ensureCollection accepts name schema indexes w))"
  by (rule kept_ensureCollection [of "grows a"])
     (simp_all add: kept_grows_createIndex kept_grows_createCollection kept_grows_collMod)

lemma validated_ensureCollection:
  assumes "failed w = None" and "accepts schema"
  shows "validated name schema (store (ensureCollection accepts name schema indexes w))"
proof -
  have v: "validated name schema (store (ensure_validator accepts name schema w))"
    by (rule ensure_validator_ok(2) [where accepts = accepts and schema = schema, OF assms])
  show ?thesis
  proof (cases indexes)
    case None
    then show ?thesis using v by (simp add: ensureCollection_eq)
  next
    case (Some idxs)
    have "validated name schema
        (store (fold (ensureIndex name) idxs (ensure_validator accepts name schema w)))"
      by (rule kept_fold_ensureIndex [of "validated name schema"])
         (rule kept_validated_createIndex, rule v)
    then show ?thesis using Some by (simp add: ensureCollection_eq)
  qed
qed

text \<open>
  C5: a call of \<open>ensureCollection\<close> first asks for the collection. When there is
  none of that name it sends \<open>createCollection\<close> with the schema as validator, the
  level \<^verbatim>\<open>moderate\<close> and the action \<^verbatim>\<open>error\<close>; when there is one it sends
  \<^verbatim>\<open>collMod\<close> with the same three settings. That call succeeds exactly when the
  server takes the schema. When it does, the collection ends with that validator, level
  and action, also when a later index call fails. When it does not, the call fails with
  the server's parse error, the run stops there, and the database is as it was: no
  collection is created, and an existing one keeps its validator. In every case every
  collection that existed still exists, and the documents of every collection are what
  they were.
\<close>

theorem ensureCollection_validator:
  "failed w = None \<Longrightarrow>
     (\<exists>rest. trace (ensureCollection accepts name schema indexes w) =
        trace w @ GetCollectionInfos name #
          (if store w name = None then CreateCollection name schema ''moderate'' ''error''
           else CollMod name schema ''moderate'' ''error'') # rest) \<and>
     (failed (ensure_validator accepts name schema w) = None \<longleftrightarrow> accepts schema) \<and>
     (accepts schema \<longrightarrow>
        validated name schema (store (ensureCollection accepts name schema indexes w))) \<and>
     (\<not> accepts schema \<longrightarrow>
        failed (ensureCollection accepts name schema indexes w) = Some FailedToParse \<and>
        store (ensureCollection accepts name schema indexes w) = store w \<and>
        trace (ensureCollection accepts name schema indexes w) =
          trace w @ [GetCollectionInfos name,
            if store w name = None then CreateCollection name schema ''moderate'' ''error''
            else CollMod name schema ''moderate'' ''error'']) \<and>
     same_docs (store w) (store (ensureCollection accepts name schema indexes w)) \<and>
     grows (store w) (store (ensureCollection accepts name schema indexes w))"
proof -
  assume ok: "failed w = None"
  let ?r = "ensureCollection accepts name schema indexes w"
  let ?call = "if store w name = None then CreateCollection name schema ''moderate'' ''error''
               else CollMod name schema ''moderate'' ''error''"
  from trace_ensureCollection [OF ok, of accepts name schema indexes] obtain k where
    "trace ?r = trace w @ take (Suc (Suc k)) (ensure_cmds name schema indexes (store w)) \<and>
     (failed ?r = None \<longrightarrow> trace ?r = trace w @ ensure_cmds name schema indexes (store w))" ..
  then have "trace ?r = trace w @ GetCollectionInfos name # ?call #
        take k (case indexes of None \<Rightarrow> [] | Some idxs \<Rightarrow> map (index_cmd name) idxs)"
    by (simp add: ensure_cmds_def validator_cmd_def)
  then have 1: "\<exists>rest. trace ?r = trace w @ GetCollectionInfos name # ?call # rest"
    by (rule exI)
  have 2: "failed (ensure_validator accepts name schema w) = None \<longleftrightarrow> accepts schema"
  proof (cases "accepts schema")
    case True
    then show ?thesis
      using ensure_validator_ok(1) [where accepts = accepts and schema = schema, OF ok True]
      by simp
  next
    case False
    then show ?thesis
      using ensure_validator_refused(1) [where accepts = accepts and schema = schema, OF ok False]
      by simp
  qed
  have 3: "validated name schema (store ?r)" if acc: "accepts schema"
    by (rule validated_ensureCollection [where accepts = accepts and schema = schema, OF ok acc])
  have 4: "failed ?r = Some FailedToParse \<and> store ?r = store w \<and>
      trace ?r = trace w @ [GetCollectionInfos name, ?call]" if ref: "\<not> accepts schema"
    using ensureCollection_refused(1,2,3) [where accepts = accepts and schema = schema
        and name = name and indexes = indexes, OF ok ref]
    by (simp add: validator_cmd_def)
  have 5: "same_docs (store w) (store ?r)"
    by (rule same_docs_ensureCollection [OF same_docs_refl])
  have 6: "grows (store w) (store ?r)"
    by (rule grows_ensureCollection [OF grows_refl])
  show ?thesis using 1 2 3 4 5 6 by simp
qed

theorem ensureCollection_validator_witness:
  "failed (start empty_db 0) = None \<and> parses emailSchema \<and>
   validated ''users'' emailSchema
     (store (ensureCollection parses ''users'' emailSchema (Some usersIndexes) (start empty_db 0))) \<and>
   (\<exists>rest. trace (ensureCollection parses ''users'' emailSchema (Some usersIndexes)
        (start empty_db 0)) =
      GetCollectionInfos ''users'' #
        CreateCollection ''users'' emailSchema ''moderate'' ''error'' # rest) \<and>
   \<not> parses usersSchema \<and>
   failed (ensureCollection parses ''users'' usersSchema (Some usersIndexes) (start empty_db 0)) =
     Some FailedToParse \<and>
   store (ensureCollection parses ''users'' usersSchema (Some usersIndexes) (start empty_db 0)) =
     empty_db"
proof -
  have 1: "failed (start empty_db 0) = None" by (simp add: start_def)
  show ?thesis
    using ensureCollection_validator [OF 1, of parses "''users''" emailSchema "Some usersIndexes"]
      ensureCollection_validator [OF 1, of parses "''users''" usersSchema "Some usersIndexes"]
      1 parses_emailSchema usersSchema_refused
    by (simp add: start_def empty_db_def)
qed

section \<open>Indexes that are already there\<close>

lemma kept_idx_ensured_createIndex: "kept_by (idx_ensured name idx) (createIndex c ks opts)"
  unfolding idx_ensured_def by (rule kept_ensured_createIndex)

lemma ensureIndex_success:
  "failed (ensureIndex name idx w) = None \<Longrightarrow> idx_ensured name idx (store (ensureIndex name idx w))"
  by (auto simp: ensureIndex_eq failed_issue store_issue idx_ensured_def
      split: if_splits sum.splits dest: ensured_createIndex)

lemma ensureIndex_noop:
  "failed w = None \<Longrightarrow> idx_ensured name idx (store w) \<Longrightarrow>
     store (ensureIndex name idx w) = store w \<and> failed (ensureIndex name idx w) = None"
  by (simp add: ensureIndex_eq failed_issue store_issue idx_ensured_def ensured_stable)

lemma fold_success_ensured:
  "failed (fold (ensureIndex name) idxs w) = None \<Longrightarrow>
     list_all (\<lambda>idx. idx_ensured name idx (store (fold (ensureIndex name) idxs w))) idxs"
proof (induction idxs arbitrary: w)
  case Nil
  show ?case by simp
next
  case (Cons x xs)
  let ?w' = "ensureIndex name x w"
  have r: "failed (fold (ensureIndex name) xs ?w') = None" using Cons.prems by simp
  then have "failed ?w' = None" by (rule failed_fold_ensureIndex_None)
  then have "idx_ensured name x (store ?w')" by (rule ensureIndex_success)
  then have "idx_ensured name x (store (fold (ensureIndex name) xs ?w'))"
    by (rule kept_fold_ensureIndex [of "idx_ensured name x", OF kept_idx_ensured_createIndex])
  then show ?case using Cons.IH [OF r] by simp
qed

lemma fold_noop:
  "failed w = None \<Longrightarrow> list_all (\<lambda>idx. idx_ensured name idx (store w)) idxs \<Longrightarrow>
     store (fold (ensureIndex name) idxs w) = store w \<and>
     failed (fold (ensureIndex name) idxs w) = None"
proof (induction idxs arbitrary: w)
  case Nil
  then show ?case by simp
next
  case (Cons x xs)
  have x: "idx_ensured name x (store w)" and xs: "list_all (\<lambda>idx. idx_ensured name idx (store w)) xs"
    using Cons.prems(2) by simp_all
  have 1: "store (ensureIndex name x w) = store w" "failed (ensureIndex name x w) = None"
    using ensureIndex_noop [OF Cons.prems(1) x] by simp_all
  show ?case using Cons.IH [of "ensureIndex name x w"] 1 xs by simp
qed

lemma collMod_noop:
  "validated name schema d \<Longrightarrow> accepts schema \<Longrightarrow>
     collMod accepts name schema ''moderate'' ''error'' d = Inr d"
proof -
  assume v: "validated name schema d" and acc: "accepts schema"
  then obtain k where k: "d name = Some k" by (auto simp: validated_def split: option.splits)
  have "k\<lparr>c_validator := Some schema, c_validationLevel := ''moderate'',
          c_validationAction := ''error''\<rparr> = k"
    using v k by (cases k) (simp add: validated_def)
  then show ?thesis using k acc by (simp add: collMod_def fun_upd_idem)
qed

lemma ensure_validator_noop:
  "failed w = None \<Longrightarrow> validated name schema (store w) \<Longrightarrow>
     store (ensure_validator accepts name schema w) = store w"
proof (cases "accepts schema")
  case False
  assume ok: "failed w = None"
  show ?thesis
    by (rule ensure_validator_refused(2) [where accepts = accepts and schema = schema, OF ok False])
next
  case True
  assume ok: "failed w = None" and v: "validated name schema (store w)"
  obtain k where "store w name = Some k"
    using v by (auto simp: validated_def split: option.splits)
  then show ?thesis
    using ok collMod_noop [where accepts = accepts and schema = schema, OF v True]
    by (simp add: ensure_validator_def Let_def getCollectionInfos_def log_cmd_simps store_issue)
qed

lemma ensureCollection_settled:
  assumes "failed w = None" and "failed (ensureCollection accepts name schema (Some idxs) w) = None"
  shows "validated name schema (store (ensureCollection accepts name schema (Some idxs) w)) \<and>
         list_all (\<lambda>idx. idx_ensured name idx
             (store (ensureCollection accepts name schema (Some idxs) w))) idxs"
proof -
  have acc: "accepts schema" by (rule ensureCollection_completed(2) [OF assms(2)])
  show ?thesis
    using validated_ensureCollection [where accepts = accepts and schema = schema
          and name = name and indexes = "Some idxs", OF assms(1) acc]
      fold_success_ensured [of name idxs "ensure_validator accepts name schema w"] assms(2)
    by (simp add: ensureCollection_eq)
qed

lemma ensureCollection_noop:
  assumes "failed w = None" and "accepts schema" and "validated name schema (store w)"
    and "list_all (\<lambda>idx. idx_ensured name idx (store w)) idxs"
  shows "store (ensureCollection accepts name schema (Some idxs) w) = store w \<and>
         failed (ensureCollection accepts name schema (Some idxs) w) = None"
proof -
  let ?v = "ensure_validator accepts name schema w"
  have 1: "store ?v = store w" by (rule ensure_validator_noop [OF assms(1,3)])
  have 2: "failed ?v = None"
    by (rule ensure_validator_ok(1) [where accepts = accepts and schema = schema, OF assms(1,2)])
  show ?thesis using fold_noop [OF 2, of name idxs] 1 assms(4) by (simp add: ensureCollection_eq)
qed

lemma ensureCollection_append:
  "ensureCollection accepts name schema (Some (pre @ rest)) w =
     fold (ensureIndex name) rest (ensureCollection accepts name schema (Some pre) w)"
  by (simp add: ensureCollection_eq)

text \<open>
  C6: in every call of \<open>ensureCollection\<close> the call that ensures the validator
  (\<open>createCollection\<close> or \<open>collMod\<close>) is issued before every \<open>createIndex\<close>:
  the calls are \<open>getCollectionInfos\<close>, the validator call, and then only
  \<open>createIndex\<close> calls. And when a first call got through the entries \<open>pre\<close> of
  its list, whatever happened at the entries after them, a call to the same server on
  the database it left gets through \<open>pre\<close> again, and changes nothing doing so: an
  index that is already there as declared is no reason to fail.
\<close>

theorem ensureCollection_order_and_resume:
  "failed w = None \<Longrightarrow>
     (\<exists>k. trace (ensureCollection accepts name schema (Some idxs) w) =
        trace w @ GetCollectionInfos name # validator_cmd name schema (store w) #
          take k (map (index_cmd name) idxs)) \<and>
     \<not> is_CreateIndex (GetCollectionInfos name) \<and>
     \<not> is_CreateIndex (validator_cmd name schema (store w)) \<and>
     list_all is_CreateIndex (map (index_cmd name) idxs) \<and>
     (failed (ensureCollection accepts name schema (Some pre) w) = None \<and>
      failed w' = None \<and>
      store w' = store (ensureCollection accepts name schema (Some (pre @ rest)) w) \<longrightarrow>
        failed (ensureCollection accepts name schema (Some pre) w') = None \<and>
        store (ensureCollection accepts name schema (Some pre) w') = store w')"
proof -
  assume ok: "failed w = None"
  from trace_ensureCollection [OF ok, of accepts name schema "Some idxs"] obtain k where
    "trace (ensureCollection accepts name schema (Some idxs) w) =
       trace w @ take (Suc (Suc k)) (ensure_cmds name schema (Some idxs) (store w)) \<and>
     (failed (ensureCollection accepts name schema (Some idxs) w) = None \<longrightarrow>
        trace (ensureCollection accepts name schema (Some idxs) w) =
          trace w @ ensure_cmds name schema (Some idxs) (store w))" ..
  then have "trace (ensureCollection accepts name schema (Some idxs) w) =
      trace w @ GetCollectionInfos name # validator_cmd name schema (store w) #
        take k (map (index_cmd name) idxs)"
    by (simp add: ensure_cmds_def)
  then have 1: "\<exists>k. trace (ensureCollection accepts name schema (Some idxs) w) =
      trace w @ GetCollectionInfos name # validator_cmd name schema (store w) #
        take k (map (index_cmd name) idxs)"
    by (rule exI)
  have 2: "\<not> is_CreateIndex (validator_cmd name schema (store w))"
    by (simp add: validator_cmd_def)
  have 3: "list_all is_CreateIndex (map (index_cmd name) idxs)"
    by (simp add: list_all_iff index_cmd_eq)
  have 4: "failed (ensureCollection accepts name schema (Some pre) w') = None \<and>
        store (ensureCollection accepts name schema (Some pre) w') = store w'"
    if first: "failed (ensureCollection accepts name schema (Some pre) w) = None"
      and ok': "failed w' = None"
      and same: "store w' = store (ensureCollection accepts name schema (Some (pre @ rest)) w)"
  proof -
    let ?r0 = "ensureCollection accepts name schema (Some pre) w"
    have acc: "accepts schema" by (rule ensureCollection_completed(2) [OF first])
    have v: "validated name schema (store w')"
      unfolding same
      by (rule validated_ensureCollection [where accepts = accepts and schema = schema,
            OF ok acc])
    have "list_all (\<lambda>idx. idx_ensured name idx (store ?r0)) pre"
      using ensureCollection_settled [OF ok first] by simp
    then have "list_all (\<lambda>idx. idx_ensured name idx (store (fold (ensureIndex name) rest ?r0))) pre"
      unfolding list_all_iff
      using kept_fold_ensureIndex [of "idx_ensured name _" ?r0 name rest,
          OF kept_idx_ensured_createIndex]
      by simp
    then have "list_all (\<lambda>idx. idx_ensured name idx (store w')) pre"
      by (simp add: same ensureCollection_append)
    then show ?thesis
      using ensureCollection_noop [where accepts = accepts and schema = schema
          and idxs = pre, OF ok' acc v]
      by simp
  qed
  show ?thesis using 1 2 3 4 by simp
qed

lemma clashing_run_fails:
  "failed (ensureCollection parses ''users'' emailSchema (Some (usersIndexes @ [clashing_index]))
      (start empty_db 0)) = Some IndexKeySpecsConflict"
  by (simp add: run_defs db_defs usersIndexes_def clashing_index_def Let_def parses_emailSchema)

theorem ensureCollection_order_and_resume_witness:
  "failed (ensureCollection parses ''users'' emailSchema (Some (usersIndexes @ [clashing_index]))
      (start empty_db 0)) = Some IndexKeySpecsConflict \<and>
   failed (ensureCollection parses ''users'' emailSchema (Some usersIndexes)
      (start (store (ensureCollection parses ''users'' emailSchema
         (Some (usersIndexes @ [clashing_index])) (start empty_db 0))) 0)) = None \<and>
   store (ensureCollection parses ''users'' emailSchema (Some usersIndexes)
      (start (store (ensureCollection parses ''users'' emailSchema
         (Some (usersIndexes @ [clashing_index])) (start empty_db 0))) 0)) =
   store (ensureCollection parses ''users'' emailSchema
         (Some (usersIndexes @ [clashing_index])) (start empty_db 0))"
proof -
  let ?r = "ensureCollection parses ''users'' emailSchema (Some (usersIndexes @ [clashing_index]))
      (start empty_db 0)"
  have 1: "failed (start empty_db 0) = None" by (simp add: start_def)
  have 2: "failed (start (store ?r) 0) = None" by (simp add: start_def)
  have 3: "store (start (store ?r) 0) = store ?r" by (simp add: start_def)
  show ?thesis
    using ensureCollection_order_and_resume [OF 1, of parses "''users''" emailSchema usersIndexes
        usersIndexes "start (store ?r) 0" "[clashing_index]"]
      users_run_completes clashing_run_fails 2 3
    by simp
qed

section \<open>Running again\<close>

lemma keeps_ensured_refl: "keeps_ensured d d"
  by (simp add: keeps_ensured_def)

lemma kept_byD: "kept_by P f \<Longrightarrow> P d \<Longrightarrow> f d = Inr d' \<Longrightarrow> P d'"
  unfolding kept_by_def by simp

lemma kept_keeps_ensured_gen:
  assumes "\<And>c ks opts. kept_by (ensured c ks opts) f"
  shows "kept_by (keeps_ensured a) f"
  unfolding kept_by_def keeps_ensured_def
proof (intro allI impI)
  fix d d' c ks opts
  assume 1: "\<forall>c ks opts. ensured c ks opts a \<longrightarrow> ensured c ks opts d"
    and 2: "f d = Inr d'" and 3: "ensured c ks opts a"
  from 1 3 have "ensured c ks opts d" by simp
  then show "ensured c ks opts d'" using 2 by (rule kept_byD [OF assms])
qed

lemma kept_keeps_ensured:
  "kept_by (keeps_ensured a) (createIndex c ks opts)"
  "kept_by (keeps_ensured a) (insertDoc c dc)"
  "kept_by (keeps_ensured a) (createCollection accepts c s l m)"
  "kept_by (keeps_ensured a) (collMod accepts c s l m)"
  by (rule kept_keeps_ensured_gen, rule kept_ensured_createIndex kept_ensured_insertDoc
        kept_ensured_createCollection kept_ensured_collMod)+

lemma keeps_idx_ensured:
  "keeps_ensured a d \<Longrightarrow> idx_ensured name idx a \<Longrightarrow> idx_ensured name idx d"
  by (simp add: keeps_ensured_def idx_ensured_def)

lemma rerun_indexes:
  assumes "failed w = None" and "failed w' = None"
    and "keeps_ensured (store (fold (ensureIndex name) idxs w)) (store w')"
    and "failed (fold (ensureIndex name) idxs w) \<noteq> None \<longrightarrow>
           store w' = store (fold (ensureIndex name) idxs w)"
  shows "store (fold (ensureIndex name) idxs w') = store w' \<and>
         failed (fold (ensureIndex name) idxs w') = failed (fold (ensureIndex name) idxs w)"
  using assms
proof (induction idxs arbitrary: w w')
  case Nil
  then show ?case by simp
next
  case (Cons x xs)
  let ?w1 = "ensureIndex name x w"
  let ?r = "fold (ensureIndex name) xs ?w1"
  let ?c = "target name (declared_keys x) (declared_options x)"
  have r: "fold (ensureIndex name) (x # xs) w = ?r" by simp
  show ?case
  proof (cases "failed ?w1 = None")
    case True
    have "idx_ensured name x (store ?w1)" using True by (rule ensureIndex_success)
    then have "idx_ensured name x (store ?r)"
      by (rule kept_fold_ensureIndex [of "idx_ensured name x", OF kept_idx_ensured_createIndex])
    then have "idx_ensured name x (store w')"
      using Cons.prems(3) unfolding r by (rule keeps_idx_ensured [rotated])
    then have n: "store (ensureIndex name x w') = store w'" "failed (ensureIndex name x w') = None"
      using ensureIndex_noop [OF Cons.prems(2)] by simp_all
    have "store (fold (ensureIndex name) xs (ensureIndex name x w')) = store (ensureIndex name x w') \<and>
          failed (fold (ensureIndex name) xs (ensureIndex name x w')) = failed ?r"
      using Cons.prems(3,4) unfolding r
      by (intro Cons.IH [OF True n(2)]) (simp_all add: n(1))
    then show ?thesis by (simp add: n(1))
  next
    case False
    then have stop: "?r = ?w1" by (rule fold_ensureIndex_failed)
    have sw: "store ?w1 = store w"
      using False Cons.prems(1) by (auto simp: ensureIndex_eq store_issue failed_issue split: sum.splits)
    have same: "store w' = store w" using Cons.prems(4) False unfolding r stop sw by simp
    have f1: "failed (ensureIndex name x w') = failed ?w1" "store (ensureIndex name x w') = store w'"
      using Cons.prems(1,2) False same
      by (auto simp: ensureIndex_eq store_issue failed_issue split: sum.splits)
    then have "failed (ensureIndex name x w') \<noteq> None" using False by simp
    then have "fold (ensureIndex name) xs (ensureIndex name x w') = ensureIndex name x w'"
      by (rule fold_ensureIndex_failed)
    then show ?thesis using f1 stop by simp
  qed
qed

lemma rerun_ensureCollection:
  assumes "failed w = None" and "failed w' = None" and "accepts schema"
    and "validated name schema (store w')"
    and "keeps_ensured (store (ensureCollection accepts name schema (Some idxs) w)) (store w')"
    and "failed (ensureCollection accepts name schema (Some idxs) w) \<noteq> None \<longrightarrow>
           store w' = store (ensureCollection accepts name schema (Some idxs) w)"
  shows "store (ensureCollection accepts name schema (Some idxs) w') = store w' \<and>
         failed (ensureCollection accepts name schema (Some idxs) w') =
           failed (ensureCollection accepts name schema (Some idxs) w)"
proof -
  let ?v = "ensure_validator accepts name schema w" and ?v' = "ensure_validator accepts name schema w'"
  have 1: "failed ?v = None" "failed ?v' = None"
    using ensure_validator_ok(1) [where accepts = accepts and schema = schema, OF assms(1,3)]
      ensure_validator_ok(1) [where accepts = accepts and schema = schema, OF assms(2,3)]
    by simp_all
  have 2: "store ?v' = store w'" by (rule ensure_validator_noop [OF assms(2,4)])
  show ?thesis
    using rerun_indexes [OF 1, of name idxs] assms(5,6)
    by (simp add: ensureCollection_eq 2)
qed

section \<open>The seed block\<close>

lemma with_id_seed_user: "with_id n (seed_user uid now) = seed_user uid now"
  by (simp add: with_id_def seed_user_def)

lemma next_fresh_seed_user: "next_fresh n (seed_user uid now) = n"
  by (simp add: next_fresh_def seed_user_def)

lemma insert_seed_user:
  assumes "validated ''users'' usersSchema d" and "countDocuments d ''users'' = 0"
  shows "insertDoc ''users'' (seed_user (BOid u) (BDate t)) d =
           Inr (d(''users'' \<mapsto> (the_coll d ''users'')\<lparr>c_docs := [seed_user (BOid u) (BDate t)]\<rparr>))"
proof -
  let ?k = "the_coll d ''users''"
  have v: "c_validator ?k = Some usersSchema"
    using assms(1) by (auto simp: validated_def the_coll_def split: option.splits)
  have e: "c_docs ?k = []" using assms(2) by (simp add: countDocuments_def)
  have 1: "\<not> validation_refuses ?k (seed_user (BOid u) (BDate t))"
    using v seed_user_ok [of u t] by (simp add: validation_refuses_def)
  have 2: "\<not> duplicate_key ?k (seed_user (BOid u) (BDate t))"
    using e by (simp add: duplicate_key_def list_ex_iff)
  show ?thesis using 1 2 e by (simp add: insertDoc_def Let_def)
qed

lemma kept_nonempty_insertDoc: "kept_by (\<lambda>d. countDocuments d c \<noteq> 0) (insertDoc c' dc)"
  unfolding kept_by_def
  by (auto dest!: insertDoc_Inr simp: countDocuments_def the_coll_upd split: if_splits)

lemma seed_nonempty:
  "countDocuments (store w) ''users'' \<noteq> 0 \<Longrightarrow>
     store (seed clock w) = store w \<and> failed (seed clock w) = failed w \<and>
     trace (seed clock w) = (if failed w = None then trace w @ [CountDocuments ''users''] else trace w)"
  by (simp add: seed_def Let_def log_cmd_simps)

lemma seed_empty:
  "failed w = None \<Longrightarrow> countDocuments (store w) ''users'' = 0 \<Longrightarrow>
     seed clock w =
       insertMany ''tasks'' (seed_tasks (BOid (fresh w)) (BDate clock))
         (insertOne ''users'' (seed_user (BOid (fresh w)) (BDate clock))
            ((log_cmd (CountDocuments ''users'') w)\<lparr>fresh := Suc (fresh w)\<rparr>))"
  by (simp add: seed_def Let_def log_cmd_simps)

lemma insertOne_seed_user:
  assumes "failed w = None" and "validated ''users'' usersSchema (store w)"
    and "countDocuments (store w) ''users'' = 0"
  shows "failed (insertOne ''users'' (seed_user (BOid u) (BDate t)) w) = None"
    and "store (insertOne ''users'' (seed_user (BOid u) (BDate t)) w) =
           (store w)(''users'' \<mapsto> (the_coll (store w) ''users'')\<lparr>c_docs := [seed_user (BOid u) (BDate t)]\<rparr>)"
    and "trace (insertOne ''users'' (seed_user (BOid u) (BDate t)) w) =
           trace w @ [InsertOne ''users'' (seed_user (BOid u) (BDate t))]"
    and "fresh (insertOne ''users'' (seed_user (BOid u) (BDate t)) w) = fresh w"
  using assms(1) insert_seed_user [OF assms(2,3), of u t]
  by (simp_all add: insertOne_def put_def log_cmd_def with_id_seed_user next_fresh_seed_user)

lemma seed_leaves_users:
  assumes "failed w = None" and "validated ''users'' usersSchema (store w)"
  shows "countDocuments (store (seed clock w)) ''users'' \<noteq> 0"
proof (cases "countDocuments (store w) ''users'' = 0")
  case False
  then show ?thesis by (simp add: seed_nonempty)
next
  case True
  let ?w1 = "(log_cmd (CountDocuments ''users'') w)\<lparr>fresh := Suc (fresh w)\<rparr>"
  let ?w2 = "insertOne ''users'' (seed_user (BOid (fresh w)) (BDate clock)) ?w1"
  have "countDocuments (store ?w2) ''users'' \<noteq> 0"
    using insertOne_seed_user(2) [of ?w1 "fresh w" clock] assms True
    by (simp add: log_cmd_simps countDocuments_def the_coll_upd)
  then have "countDocuments (store (insertMany ''tasks''
      (seed_tasks (BOid (fresh w)) (BDate clock)) ?w2)) ''users'' \<noteq> 0"
    by (rule kept_insertMany [of "\<lambda>d. countDocuments d ''users'' \<noteq> 0", OF kept_nonempty_insertDoc])
  then show ?thesis using seed_empty [OF assms(1) True] by simp
qed

section \<open>The whole script, twice\<close>

lemma validated_users_kept_tasks:
  "validated ''users'' usersSchema (store w) \<Longrightarrow>
     validated ''users'' usersSchema
       (store (ensureCollection accepts ''tasks'' tasksSchema indexes w))"
  by (rule kept_ensureCollection [of "validated ''users'' usersSchema"])
     (simp_all add: kept_validated_createIndex kept_validated_createCollection
        kept_validated_collMod)

lemma validated_kept_seed:
  "validated c s (store w) \<Longrightarrow> validated c s (store (seed clock w))"
  by (rule kept_seed [of "validated c s"]) (simp_all add: kept_validated_insertDoc)

lemma keeps_ensured_kept_ensureCollection:
  "keeps_ensured a (store w) \<Longrightarrow> keeps_ensured a (store (ensureCollection accepts name schema indexes w))"
  by (rule kept_ensureCollection [of "keeps_ensured a"]) (simp_all add: kept_keeps_ensured)

lemma keeps_ensured_kept_seed:
  "keeps_ensured a (store w) \<Longrightarrow> keeps_ensured a (store (seed clock w))"
  by (rule kept_seed [of "keeps_ensured a"]) (simp_all add: kept_keeps_ensured)

lemma script_stops_at:
  "failed r \<noteq> None \<Longrightarrow> seed clock r = r"
  "failed r \<noteq> None \<Longrightarrow>
     seed clock (ensureCollection accepts name schema indexes r) = r"
  by (simp_all add: ensureCollection_failed seed_failed)

lemma script_rerun:
  assumes ok: "failed w = None" and ok': "failed w' = None"
    and same: "store w' = store (script accepts clock w)"
  shows "store (script accepts clock' w') = store w' \<and>
         (failed (script accepts clock w) = None \<longrightarrow> failed (script accepts clock' w') = None)"
proof -
  let ?u = "ensureCollection accepts ''users'' usersSchema (Some usersIndexes) w"
  let ?t = "ensureCollection accepts ''tasks'' tasksSchema (Some tasksIndexes) ?u"
  let ?u' = "ensureCollection accepts ''users'' usersSchema (Some usersIndexes) w'"
  let ?t' = "ensureCollection accepts ''tasks'' tasksSchema (Some tasksIndexes) ?u'"
  have D: "store w' = store (seed clock ?t)" using same by (simp add: script_def)
  show ?thesis
  proof (cases "accepts usersSchema")
    case False
    note r = ensureCollection_refused(1,2) [where accepts = accepts and schema = usersSchema
        and name = "''users''" and indexes = "Some usersIndexes", OF _ False]
    have fu: "failed ?u \<noteq> None" "failed ?u' \<noteq> None"
      using r(1) [OF ok] r(1) [OF ok'] by simp_all
    have s: "script accepts clock w = ?u" "script accepts clock' w' = ?u'"
      unfolding script_def by (rule script_stops_at(2) [OF fu(1)], rule script_stops_at(2) [OF fu(2)])
    have "store (script accepts clock' w') = store w'" unfolding s(2) by (rule r(2) [OF ok'])
    moreover have "failed (script accepts clock w) \<noteq> None" unfolding s(1) by (rule fu(1))
    ultimately show ?thesis by blast
  next
    case au: True
    have vu: "validated ''users'' usersSchema (store ?u)"
      by (rule validated_ensureCollection [where accepts = accepts and schema = usersSchema,
            OF ok au])
    have vt: "validated ''users'' usersSchema (store ?t)"
      using vu by (rule validated_users_kept_tasks)
    have a: "validated ''users'' usersSchema (store w')"
      unfolding D using vt by (rule validated_kept_seed)
    have b: "keeps_ensured (store ?u) (store w')"
      unfolding D
      by (rule keeps_ensured_kept_seed, rule keeps_ensured_kept_ensureCollection,
          rule keeps_ensured_refl)
    have c: "failed ?u \<noteq> None \<longrightarrow> store w' = store ?u"
      unfolding D by (simp add: ensureCollection_failed seed_failed)
    have u': "store ?u' = store w'" "failed ?u' = failed ?u"
      using rerun_ensureCollection [where accepts = accepts and schema = usersSchema,
          OF ok ok' au a b c]
      by simp_all
    show ?thesis
    proof (cases "failed ?u = None")
      case False
      then have "script accepts clock w = ?u" "script accepts clock' w' = ?u'"
        using u'(2) by (simp_all add: script_def ensureCollection_failed seed_failed)
      then show ?thesis using u' by simp
    next
      case uok: True
      then have uok': "failed ?u' = None" using u'(2) by simp
      show ?thesis
      proof (cases "accepts tasksSchema")
        case False
        note r = ensureCollection_refused(1,2) [where accepts = accepts and schema = tasksSchema
            and name = "''tasks''" and indexes = "Some tasksIndexes", OF _ False]
        have ft: "failed ?t \<noteq> None" "failed ?t' \<noteq> None"
          using r(1) [OF uok] r(1) [OF uok'] by simp_all
        have s: "script accepts clock w = ?t" "script accepts clock' w' = ?t'"
          unfolding script_def
          by (rule script_stops_at(1) [OF ft(1)], rule script_stops_at(1) [OF ft(2)])
        have "store (script accepts clock' w') = store w'"
          unfolding s(2) using r(2) [OF uok'] u'(1) by simp
        moreover have "failed (script accepts clock w) \<noteq> None" unfolding s(1) by (rule ft(1))
        ultimately show ?thesis by blast
      next
        case at: True
        have d: "validated ''tasks'' tasksSchema (store ?u')"
          unfolding u'(1) D
          by (rule validated_kept_seed,
              rule validated_ensureCollection [where accepts = accepts and schema = tasksSchema,
                OF uok at])
        have e: "keeps_ensured (store ?t) (store ?u')"
          unfolding u'(1) D by (rule keeps_ensured_kept_seed, rule keeps_ensured_refl)
        have f: "failed ?t \<noteq> None \<longrightarrow> store ?u' = store ?t"
          unfolding u'(1) D by (simp add: seed_failed)
        have t': "store ?t' = store w'" "failed ?t' = failed ?t"
          using rerun_ensureCollection [where accepts = accepts and schema = tasksSchema,
              OF uok uok' at d e f] u'(1)
          by simp_all
        show ?thesis
        proof (cases "failed ?t = None")
          case False
          then have "script accepts clock w = ?t" "script accepts clock' w' = ?t'"
            using t'(2) by (simp_all add: script_def seed_failed)
          then show ?thesis using t' by simp
        next
          case tok: True
          have n: "countDocuments (store ?t') ''users'' \<noteq> 0"
            unfolding t'(1) D by (rule seed_leaves_users [OF tok vt])
          have "store (seed clock' ?t') = store ?t'" "failed (seed clock' ?t') = failed ?t'"
            using seed_nonempty [OF n, of clock'] by simp_all
          then show ?thesis using t' tok by (simp add: script_def)
        qed
      qed
    qed
  qed
qed

text \<open>
  C2: run the script, then run it again on the database the first run left. The
  second run leaves that database as it found it: the same collections with the same
  validators, the same indexes and the same documents. This holds whatever validators
  the server takes, and whether the first run completed or stopped at a failing call, a
  refused validator included; and when the first run completed, so does the second.
\<close>

theorem script_idempotent:
  "store (script accepts clock' (start (store (script accepts clock (start d n))) m)) =
     store (script accepts clock (start d n)) \<and>
   (failed (script accepts clock (start d n)) = None \<longrightarrow>
      failed (script accepts clock' (start (store (script accepts clock (start d n))) m)) = None)"
  using script_rerun [of "start d n" "start (store (script accepts clock (start d n))) m"
      accepts clock clock']
  by (simp add: start_def)

section \<open>A run on the empty database\<close>

lemma fresh_ensureIndex: "fresh (ensureIndex name idx w) = fresh w"
  by (simp add: ensureIndex_eq fresh_issue)

lemma fresh_fold_ensureIndex: "fresh (fold (ensureIndex name) idxs w) = fresh w"
  by (induction idxs arbitrary: w) (simp_all add: fresh_ensureIndex)

lemma fresh_ensure_validator: "fresh (ensure_validator accepts name schema w) = fresh w"
  by (simp add: ensure_validator_def Let_def fresh_issue log_cmd_simps)

lemma fresh_ensureCollection: "fresh (ensureCollection accepts name schema indexes w) = fresh w"
  by (cases indexes)
     (simp_all add: ensureCollection_eq fresh_fold_ensureIndex fresh_ensure_validator)

lemma createIndex_add:
  assumes "d c = Some k" and "ks \<noteq> []"
    and "find (\<lambda>ix. ix_name ix = index_name ks opts) (c_indexes k) = None"
    and "\<not> list_ex (\<lambda>ix. ix_keys ix = ks) (c_indexes k)"
    and "\<not> (is_text ks \<and> list_ex (\<lambda>ix. is_text (ix_keys ix)) (c_indexes k))"
    and "\<not> (is_unique opts \<and> \<not> distinct (map (key_of ks) (c_docs k)))"
  shows "createIndex c ks opts d =
           Inr (d(c \<mapsto> k\<lparr>c_indexes := c_indexes k @
             [\<lparr>ix_name = index_name ks opts, ix_keys = ks, ix_options = opts\<rparr>]\<rparr>))"
  using assms by (simp add: createIndex_def the_coll_def Let_def)

lemma ensureIndex_step:
  assumes "createIndex (target name ks opts) ks opts d = Inr d'"
  shows "ensureIndex name \<lparr>idx_keys = Some ks, idx_options = Some opts\<rparr>
            \<lparr>store = d, trace = tr, fresh = n, failed = None\<rparr> =
           \<lparr>store = d', trace = tr @ [CreateIndex (target name ks opts) ks opts],
            fresh = n, failed = None\<rparr>"
  using assms by (simp add: ensureIndex_def issue_def Let_def)

lemma ensure_validator_absent:
  "d name = None \<Longrightarrow> accepts schema \<Longrightarrow>
   ensure_validator accepts name schema \<lparr>store = d, trace = tr, fresh = n, failed = None\<rparr> =
     \<lparr>store = d(name \<mapsto> installed schema []),
      trace = tr @ [GetCollectionInfos name, CreateCollection name schema ''moderate'' ''error''],
      fresh = n, failed = None\<rparr>"
  by (simp add: ensure_validator_def getCollectionInfos_def log_cmd_def issue_def
      createCollection_def installed_def empty_coll_def Let_def)

lemma insertDoc_add:
  assumes "\<not> validation_refuses (the_coll d c) dc" and "\<not> duplicate_key (the_coll d c) dc"
  shows "insertDoc c dc d =
           Inr (d(c \<mapsto> (the_coll d c)\<lparr>c_docs := c_docs (the_coll d c) @ [dc]\<rparr>))"
  using assms by (simp add: insertDoc_def Let_def)

lemma put_step:
  assumes "insertDoc c (with_id n dc) d = Inr d'"
  shows "put c dc \<lparr>store = d, trace = tr, fresh = n, failed = None\<rparr> =
           \<lparr>store = d', trace = tr, fresh = next_fresh n dc, failed = None\<rparr>"
  using assms by (simp add: put_def)

lemma ensure_users_empty:
  "accepts usersSchema \<Longrightarrow>
   ensureCollection accepts ''users'' usersSchema (Some usersIndexes) (start empty_db n) =
     \<lparr>store = empty_db(''users'' \<mapsto> installed usersSchema usersIndexes),
      trace = ensure_cmds ''users'' usersSchema (Some usersIndexes) empty_db,
      fresh = n, failed = None\<rparr>"
  by (simp add: start_def ensureCollection_eq ensure_validator_absent usersIndexes_def
      ensureIndex_step createIndex_add
      installed_def as_index_def declared_keys_def declared_options_def
      ensure_cmds_def validator_cmd_def index_cmd_def Let_def
      target_def local_name_def or_else_def named_def no_options_def
      index_name_def is_text_def is_unique_def empty_db_def)

lemma ensure_tasks_empty:
  "accepts tasksSchema \<Longrightarrow>
   ensureCollection accepts ''tasks'' tasksSchema (Some tasksIndexes)
     \<lparr>store = empty_db(''users'' \<mapsto> u), trace = tr, fresh = n, failed = None\<rparr> =
     \<lparr>store = empty_db(''users'' \<mapsto> u, ''tasks'' \<mapsto> installed tasksSchema tasksIndexes),
      trace = tr @ ensure_cmds ''tasks'' tasksSchema (Some tasksIndexes) empty_db,
      fresh = n, failed = None\<rparr>"
  by (simp add: ensureCollection_eq ensure_validator_absent tasksIndexes_def
      ensureIndex_step createIndex_add
      installed_def as_index_def declared_keys_def declared_options_def
      ensure_cmds_def validator_cmd_def index_cmd_def Let_def
      target_def local_name_def or_else_def named_def no_options_def
      index_name_def is_text_def is_unique_def empty_db_def)

lemma seed_tasks_docs_ok:
  "json_schema_ok tasksSchema (BObj ((''_id'', BOid m) # hd (seed_tasks (BOid u) (BDate t))))"
  "json_schema_ok tasksSchema (BObj ((''_id'', BOid m) # last (seed_tasks (BOid u) (BDate t))))"
  using seed_tasks_ok [of m u t] by (simp_all add: seed_tasks_def with_id_def)

lemma seed_on_installed:
  "seed clock \<lparr>store = empty_db(''users'' \<mapsto> installed usersSchema usersIndexes,
                       ''tasks'' \<mapsto> installed tasksSchema tasksIndexes),
               trace = tr, fresh = n, failed = None\<rparr> =
     \<lparr>store = empty_db(
        ''users'' \<mapsto> (installed usersSchema usersIndexes)\<lparr>
           c_docs := [seed_user (BOid n) (BDate clock)]\<rparr>,
        ''tasks'' \<mapsto> (installed tasksSchema tasksIndexes)\<lparr>
           c_docs := map2 with_id [Suc n, Suc (Suc n)]
                       (seed_tasks (BOid n) (BDate clock))\<rparr>),
      trace = tr @ [CountDocuments ''users'',
                    InsertOne ''users'' (seed_user (BOid n) (BDate clock)),
                    InsertMany ''tasks'' (seed_tasks (BOid n) (BDate clock))],
      fresh = Suc (Suc (Suc n)), failed = None\<rparr>"
  using seed_user_ok [of n clock] seed_tasks_docs_ok [of _ n clock]
  by (simp add: seed_def insertOne_def insertMany_def log_cmd_def put_step insertDoc_add
      countDocuments_def the_coll_def validation_refuses_def duplicate_key_def
      installed_def as_index_def declared_keys_def declared_options_def
      usersIndexes_def tasksIndexes_def seed_user_def seed_tasks_def
      with_id_def next_fresh_def is_unique_def named_def no_options_def key_of_def
      empty_db_def Let_def)

lemma script_empty_db:
  "accepts usersSchema \<Longrightarrow> accepts tasksSchema \<Longrightarrow>
   script accepts clock (start empty_db n) =
     \<lparr>store = empty_db(
        ''users'' \<mapsto> (installed usersSchema usersIndexes)\<lparr>
           c_docs := [seed_user (BOid n) (BDate clock)]\<rparr>,
        ''tasks'' \<mapsto> (installed tasksSchema tasksIndexes)\<lparr>
           c_docs := map2 with_id [Suc n, Suc (Suc n)]
                       (seed_tasks (BOid n) (BDate clock))\<rparr>),
      trace = ensure_cmds ''users'' usersSchema (Some usersIndexes) empty_db @
              ensure_cmds ''tasks'' tasksSchema (Some tasksIndexes) empty_db @
              [CountDocuments ''users'',
               InsertOne ''users'' (seed_user (BOid n) (BDate clock)),
               InsertMany ''tasks'' (seed_tasks (BOid n) (BDate clock))],
      fresh = Suc (Suc (Suc n)), failed = None\<rparr>"
  by (simp only: script_def ensure_users_empty ensure_tasks_empty seed_on_installed append_assoc)

lemma script_empty_db_takes_any:
  "failed (script takes_any clock (start empty_db n)) = None"
  by (simp add: script_empty_db takes_any_def)

text \<open>
  Were the two schemas taken by the server, a run from an empty database would complete
  and leave one document in \<^verbatim>\<open>users\<close>, the seed user, and two in \<^verbatim>\<open>tasks\<close>, the
  seed tasks, both with \<^verbatim>\<open>isDeleted\<close> false and with the \<^verbatim>\<open>_id\<close> of the seed user
  as \<^verbatim>\<open>ownerId\<close>: the one identity taken before the user is inserted.
\<close>

lemma script_on_accepting_server:
  assumes "accepts usersSchema" and "accepts tasksSchema"
  shows "failed (script accepts clock (start empty_db n)) = None \<and>
   c_docs (the_coll (store (script accepts clock (start empty_db n))) ''users'') =
     [seed_user (BOid n) (BDate clock)] \<and>
   c_docs (the_coll (store (script accepts clock (start empty_db n))) ''tasks'') =
     map2 with_id [Suc n, Suc (Suc n)] (seed_tasks (BOid n) (BDate clock)) \<and>
   countDocuments (store (script accepts clock (start empty_db n))) ''users'' = 1 \<and>
   countDocuments (store (script accepts clock (start empty_db n))) ''tasks'' = 2 \<and>
   list_all (\<lambda>t. map_of t ''isDeleted'' = Some (BBool False) \<and>
                  map_of t ''ownerId'' = map_of (seed_user (BOid n) (BDate clock)) ''_id'')
     (c_docs (the_coll (store (script accepts clock (start empty_db n))) ''tasks'')) \<and>
   map_of (seed_user (BOid n) (BDate clock)) ''_id'' = Some (BOid n)"
  unfolding script_empty_db [where accepts = accepts, OF assms]
  by (simp add: the_coll_def countDocuments_def seed_tasks_def seed_user_def with_id_def)

text \<open>
  C4 does not hold of the script as it stands. \<open>usersSchema\<close> gives its property
  \<^verbatim>\<open>isActive\<close> the keyword \<^verbatim>\<open>default\<close> (as \<open>tasksSchema\<close> does for
  \<^verbatim>\<open>isDeleted\<close>), which the server does not implement. From an empty database the
  first call that changes anything, \<open>createCollection\<close> for \<^verbatim>\<open>users\<close>, is
  therefore refused: the run stops at its second call with the server's parse error,
  and the database is still empty, with no document in \<^verbatim>\<open>users\<close> and none in
  \<^verbatim>\<open>tasks\<close>, where C4 expects one and two.
\<close>

theorem script_refused_on_empty_database:
  "failed (script parses clock (start empty_db n)) = Some FailedToParse \<and>
   trace (script parses clock (start empty_db n)) =
     [GetCollectionInfos ''users'',
      CreateCollection ''users'' usersSchema ''moderate'' ''error''] \<and>
   store (script parses clock (start empty_db n)) = empty_db \<and>
   countDocuments (store (script parses clock (start empty_db n))) ''users'' = 0 \<and>
   countDocuments (store (script parses clock (start empty_db n))) ''tasks'' = 0"
proof -
  let ?w = "start empty_db n"
  let ?u = "ensureCollection parses ''users'' usersSchema (Some usersIndexes) ?w"
  have ok: "failed ?w = None" by (simp add: start_def)
  note r = ensureCollection_refused(1,2,3) [where accepts = parses and schema = usersSchema
      and name = "''users''" and indexes = "Some usersIndexes", OF ok usersSchema_refused]
  have "failed ?u \<noteq> None" using r(1) by simp
  then have s: "script parses clock ?w = ?u"
    unfolding script_def by (rule script_stops_at(2))
  show ?thesis
    unfolding s using r
    by (simp add: start_def validator_cmd_def empty_db_def countDocuments_def the_coll_def
        empty_coll_def)
qed

theorem script_refused_on_empty_database_witness:
  "failed (script parses 0 (start empty_db 0)) = Some FailedToParse \<and>
   countDocuments (store (script parses 0 (start empty_db 0))) ''users'' = 0 \<and>
   countDocuments (store (script parses 0 (start empty_db 0))) ''tasks'' = 0"
  using script_refused_on_empty_database [of 0 0] by blast

theorem script_idempotent_witness:
  "failed (script takes_any 5 (start empty_db 0)) = None \<and>
   failed (script takes_any 9 (start (store (script takes_any 5 (start empty_db 0))) 3)) = None \<and>
   store (script takes_any 9 (start (store (script takes_any 5 (start empty_db 0))) 3)) =
     store (script takes_any 5 (start empty_db 0)) \<and>
   store (script parses 9 (start (store (script parses 5 (start empty_db 0))) 3)) =
     store (script parses 5 (start empty_db 0))"
proof -
  have "failed (script takes_any 5 (start empty_db 0)) = None"
    by (rule script_empty_db_takes_any)
  then show ?thesis
    using script_idempotent [of takes_any 9 5 empty_db 0 3]
      script_idempotent [of parses 9 5 empty_db 0 3]
    by simp
qed

section \<open>What the seed block writes\<close>

lemma failed_put_None: "failed (put c dc w) = None \<Longrightarrow> failed w = None"
  by (auto simp: failed_put split: if_splits)

lemma put_success:
  assumes "failed (put c dc w) = None"
  shows "store (put c dc w) =
           (store w)(c \<mapsto> (the_coll (store w) c)\<lparr>c_docs :=
              c_docs (the_coll (store w) c) @ [with_id (fresh w) dc]\<rparr>)"
    and "fresh (put c dc w) = next_fresh (fresh w) dc"
  using assms
  by (auto simp: put_def split: if_splits sum.splits dest: insertDoc_Inr)

lemma seed_tasks_two:
  "seed_tasks uid now = [hd (seed_tasks uid now), last (seed_tasks uid now)]"
  by (simp add: seed_tasks_def)

lemma next_fresh_seed_tasks:
  "next_fresh n (hd (seed_tasks uid now)) = Suc n"
  "next_fresh n (last (seed_tasks uid now)) = Suc n"
  by (simp_all add: seed_tasks_def next_fresh_def)

lemma failed_seed_None: "failed (seed clock w) = None \<Longrightarrow> failed w = None"
  using seed_failed [of w clock] by (cases "failed w") auto

lemma failed_ensureCollection_None:
  "failed (ensureCollection accepts name schema indexes w) = None \<Longrightarrow> failed w = None"
  using ensureCollection_failed [of w accepts name schema indexes] by (cases "failed w") auto

lemma seed_completed_tasks:
  assumes ok: "failed w = None" and empty: "countDocuments (store w) ''users'' = 0"
    and fin: "failed (seed clock w) = None"
  shows "c_docs (the_coll (store (seed clock w)) ''tasks'') =
           c_docs (the_coll (store w) ''tasks'') @
             map2 with_id [Suc (fresh w), Suc (Suc (fresh w))]
               (seed_tasks (BOid (fresh w)) (BDate clock))"
proof -
  let ?uid = "BOid (fresh w)" and ?now = "BDate clock"
  let ?t1 = "hd (seed_tasks ?uid ?now)" and ?t2 = "last (seed_tasks ?uid ?now)"
  let ?w1 = "(log_cmd (CountDocuments ''users'') w)\<lparr>fresh := Suc (fresh w)\<rparr>"
  let ?w2 = "log_cmd (InsertOne ''users'' (seed_user ?uid ?now)) ?w1"
  let ?w3 = "put ''users'' (seed_user ?uid ?now) ?w2"
  let ?w4 = "log_cmd (InsertMany ''tasks'' (seed_tasks ?uid ?now)) ?w3"
  let ?w5 = "put ''tasks'' ?t1 ?w4"
  let ?w6 = "put ''tasks'' ?t2 ?w5"
  have fold2: "fold (put ''tasks'') (seed_tasks ?uid ?now) ?w4 = ?w6"
    by (subst seed_tasks_two) simp
  have eq: "seed clock w = ?w6"
    unfolding seed_empty [OF ok empty] insertMany_def insertOne_def fold2 ..
  have f6: "failed ?w6 = None" using fin eq by simp
  then have f5: "failed ?w5 = None" by (rule failed_put_None)
  then have f4: "failed ?w4 = None" by (rule failed_put_None)
  then have f3: "failed ?w3 = None" by (simp add: log_cmd_simps)
  have s3: "c_docs (the_coll (store ?w3) ''tasks'') = c_docs (the_coll (store w) ''tasks'')"
    using put_success(1) [OF f3] by (simp add: log_cmd_simps the_coll_upd)
  have n3: "fresh ?w3 = Suc (fresh w)"
    using put_success(2) [OF f3] by (simp add: log_cmd_simps next_fresh_seed_user)
  have s5: "c_docs (the_coll (store ?w5) ''tasks'') =
      c_docs (the_coll (store w) ''tasks'') @ [with_id (Suc (fresh w)) ?t1]"
    using put_success(1) [OF f5] s3 n3 by (simp add: log_cmd_simps the_coll_upd)
  have n5: "fresh ?w5 = Suc (Suc (fresh w))"
    using put_success(2) [OF f5] n3 by (simp add: log_cmd_simps next_fresh_seed_tasks)
  have s6: "c_docs (the_coll (store ?w6) ''tasks'') =
      c_docs (the_coll (store w) ''tasks'') @
        [with_id (Suc (fresh w)) ?t1, with_id (Suc (Suc (fresh w))) ?t2]"
    using put_success(1) [OF f6] s5 n5 by (simp add: the_coll_upd)
  have "map2 with_id [Suc (fresh w), Suc (Suc (fresh w))] (seed_tasks ?uid ?now) =
      [with_id (Suc (fresh w)) ?t1, with_id (Suc (Suc (fresh w))) ?t2]"
    by (subst seed_tasks_two) simp
  then show ?thesis using s6 eq by simp
qed

lemma ensure_phase_same_docs:
  "same_docs (store w)
     (store (ensureCollection accepts ''tasks'' tasksSchema (Some tasksIndexes)
        (ensureCollection accepts ''users'' usersSchema (Some usersIndexes) w)))"
  by (rule same_docs_ensureCollection, rule same_docs_ensureCollection, rule same_docs_refl)

lemma script_users_nonempty:
  assumes "countDocuments (store w) ''users'' \<noteq> 0"
  shows "same_docs (store w) (store (script accepts clock w))"
proof -
  let ?t = "ensureCollection accepts ''tasks'' tasksSchema (Some tasksIndexes)
        (ensureCollection accepts ''users'' usersSchema (Some usersIndexes) w)"
  have sd: "same_docs (store w) (store ?t)" by (rule ensure_phase_same_docs)
  then have "countDocuments (store ?t) ''users'' \<noteq> 0"
    using assms by (simp add: same_docs_def countDocuments_def)
  then have "store (script accepts clock w) = store ?t"
    by (simp add: script_def seed_nonempty)
  then show ?thesis using sd by simp
qed

lemma script_completed_tasks:
  assumes "countDocuments (store w) ''users'' = 0" and "failed (script accepts clock w) = None"
  shows "c_docs (the_coll (store (script accepts clock w)) ''tasks'') =
           c_docs (the_coll (store w) ''tasks'') @
             map2 with_id [Suc (fresh w), Suc (Suc (fresh w))]
               (seed_tasks (BOid (fresh w)) (BDate clock))"
proof -
  let ?t = "ensureCollection accepts ''tasks'' tasksSchema (Some tasksIndexes)
        (ensureCollection accepts ''users'' usersSchema (Some usersIndexes) w)"
  have sd: "same_docs (store w) (store ?t)" by (rule ensure_phase_same_docs)
  have fin: "failed (seed clock ?t) = None" using assms(2) by (simp add: script_def)
  then have ok: "failed ?t = None" by (rule failed_seed_None)
  have empty: "countDocuments (store ?t) ''users'' = 0"
    using sd assms(1) by (simp add: same_docs_def countDocuments_def)
  have "fresh ?t = fresh w" by (simp add: fresh_ensureCollection)
  then show ?thesis
    using seed_completed_tasks [OF ok empty fin] sd
    by (simp add: script_def same_docs_def)
qed

section \<open>A database with a user and no task\<close>

lemma users_only_counts:
  "countDocuments users_only_db ''users'' = 1" "countDocuments users_only_db ''tasks'' = 0"
  by (simp_all add: users_only_db_def countDocuments_def the_coll_def installed_def)

lemma users_only_validated:
  "validated ''users'' usersSchema users_only_db" "validated ''tasks'' tasksSchema users_only_db"
  by (simp_all add: users_only_db_def validated_def installed_def)

lemma users_only_ensured:
  "list_all (\<lambda>idx. idx_ensured ''users'' idx users_only_db) usersIndexes"
  "list_all (\<lambda>idx. idx_ensured ''tasks'' idx users_only_db) tasksIndexes"
  by (simp_all add: users_only_db_def idx_ensured_def ensured_def the_coll_def installed_def
      as_index_def usersIndexes_def tasksIndexes_def declared_keys_def declared_options_def
      target_def local_name_def or_else_def index_name_def named_def no_options_def)

lemma script_users_only:
  assumes "accepts usersSchema" and "accepts tasksSchema"
  shows "store (script accepts clock (start users_only_db n)) = users_only_db \<and>
   failed (script accepts clock (start users_only_db n)) = None \<and>
   trace (script accepts clock (start users_only_db n)) =
     ensure_cmds ''users'' usersSchema (Some usersIndexes) users_only_db @
     ensure_cmds ''tasks'' tasksSchema (Some tasksIndexes) users_only_db @
     [CountDocuments ''users'']"
proof -
  let ?w = "start users_only_db n"
  let ?u = "ensureCollection accepts ''users'' usersSchema (Some usersIndexes) ?w"
  let ?t = "ensureCollection accepts ''tasks'' tasksSchema (Some tasksIndexes) ?u"
  have w: "failed ?w = None" "store ?w = users_only_db" "trace ?w = []"
    by (simp_all add: start_def)
  have u: "store ?u = users_only_db" "failed ?u = None"
    using ensureCollection_noop [where accepts = accepts and schema = usersSchema
        and name = "''users''" and idxs = usersIndexes, OF w(1) assms(1)]
      users_only_validated(1) users_only_ensured(1) by (simp_all add: w(2))
  have tu: "trace ?u = ensure_cmds ''users'' usersSchema (Some usersIndexes) users_only_db"
    using trace_ensureCollection [OF w(1), of accepts "''users''" usersSchema "Some usersIndexes"]
      u(2) w
    by auto
  have t: "store ?t = users_only_db" "failed ?t = None"
    using ensureCollection_noop [where accepts = accepts and schema = tasksSchema
        and name = "''tasks''" and idxs = tasksIndexes, OF u(2) assms(2)]
      users_only_validated(2) users_only_ensured(2) by (simp_all add: u(1))
  have tt: "trace ?t = trace ?u @ ensure_cmds ''tasks'' tasksSchema (Some tasksIndexes) users_only_db"
    using trace_ensureCollection [OF u(2), of accepts "''tasks''" tasksSchema "Some tasksIndexes"]
      t(2) u(1)
    by auto
  have n: "countDocuments (store ?t) ''users'' \<noteq> 0" by (simp add: t(1) users_only_counts)
  show ?thesis
    using seed_nonempty [OF n, of clock] t tt tu by (simp add: script_def)
qed

lemma script_users_only_takes_any:
  "store (script takes_any clock (start users_only_db n)) = users_only_db \<and>
   failed (script takes_any clock (start users_only_db n)) = None \<and>
   trace (script takes_any clock (start users_only_db n)) =
     ensure_cmds ''users'' usersSchema (Some usersIndexes) users_only_db @
     ensure_cmds ''tasks'' tasksSchema (Some tasksIndexes) users_only_db @
     [CountDocuments ''users'']"
  by (rule script_users_only [where accepts = takes_any]) (simp_all add: takes_any_def)

text \<open>
  C1, as stated, fails: here \<^verbatim>\<open>tasks\<close> holds no document, the run completes (on
  a server that takes the two schemas), and no task is inserted.
\<close>

theorem empty_tasks_not_seeded:
  "countDocuments users_only_db ''tasks'' = 0 \<and>
   failed (script takes_any 0 (start users_only_db 1)) = None \<and>
   countDocuments (store (script takes_any 0 (start users_only_db 1))) ''tasks'' = 0"
  using script_users_only_takes_any [of 0 1] by (simp add: users_only_counts)

text \<open>
  C1, as amended: the inserts of the seed block are guarded by one test, of the number
  of documents in \<^verbatim>\<open>users\<close>. When \<^verbatim>\<open>users\<close> is not empty the run inserts nothing
  into \<^verbatim>\<open>tasks\<close>, whether \<^verbatim>\<open>tasks\<close> is empty or not. When \<^verbatim>\<open>users\<close> and
  \<^verbatim>\<open>tasks\<close> are both empty and the run completes, \<^verbatim>\<open>tasks\<close> then holds exactly the
  two seed tasks. A run on the database an earlier run left inserts nothing into
  \<^verbatim>\<open>tasks\<close>.
\<close>

theorem tasks_seeding:
  "(countDocuments d ''users'' \<noteq> 0 \<longrightarrow>
      c_docs (the_coll (store (script accepts clock (start d n))) ''tasks'') =
        c_docs (the_coll d ''tasks'')) \<and>
   (countDocuments d ''users'' = 0 \<and> countDocuments d ''tasks'' = 0 \<and>
    failed (script accepts clock (start d n)) = None \<longrightarrow>
      c_docs (the_coll (store (script accepts clock (start d n))) ''tasks'') =
        map2 with_id [Suc n, Suc (Suc n)] (seed_tasks (BOid n) (BDate clock))) \<and>
   c_docs (the_coll (store (script accepts clock' (start (store (script accepts clock (start d n))) m))) ''tasks'') =
     c_docs (the_coll (store (script accepts clock (start d n))) ''tasks'')"
proof -
  have 1: "c_docs (the_coll (store (script accepts clock (start d n))) ''tasks'') =
        c_docs (the_coll d ''tasks'')"
    if "countDocuments d ''users'' \<noteq> 0"
    using script_users_nonempty [of "start d n" accepts clock] that
    by (simp add: start_def same_docs_def)
  have 2: "c_docs (the_coll (store (script accepts clock (start d n))) ''tasks'') =
        map2 with_id [Suc n, Suc (Suc n)] (seed_tasks (BOid n) (BDate clock))"
    if "countDocuments d ''users'' = 0" and "countDocuments d ''tasks'' = 0"
      and "failed (script accepts clock (start d n)) = None"
    using script_completed_tasks [of "start d n" accepts clock] that
    by (simp add: start_def countDocuments_def)
  have 3: "store (script accepts clock' (start (store (script accepts clock (start d n))) m)) =
      store (script accepts clock (start d n))"
    using script_rerun [of "start d n" "start (store (script accepts clock (start d n))) m"
        accepts clock clock']
    by (simp add: start_def)
  show ?thesis using 1 2 3 by simp
qed

theorem tasks_seeding_witness:
  "countDocuments users_only_db ''users'' \<noteq> 0 \<and>
   c_docs (the_coll (store (script takes_any 0 (start users_only_db 1))) ''tasks'') =
     c_docs (the_coll users_only_db ''tasks'') \<and>
   countDocuments empty_db ''users'' = 0 \<and> countDocuments empty_db ''tasks'' = 0 \<and>
   failed (script takes_any 0 (start empty_db 0)) = None \<and>
   c_docs (the_coll (store (script takes_any 0 (start empty_db 0))) ''tasks'') =
     map2 with_id [Suc 0, Suc (Suc 0)] (seed_tasks (BOid 0) (BDate 0))"
proof -
  have 1: "countDocuments users_only_db ''users'' \<noteq> 0" by (simp add: users_only_counts)
  have 2: "countDocuments empty_db ''users'' = 0" "countDocuments empty_db ''tasks'' = 0"
    by (simp_all add: countDocuments_def the_coll_def empty_db_def empty_coll_def)
  have 3: "failed (script takes_any 0 (start empty_db 0)) = None"
    by (rule script_empty_db_takes_any)
  show ?thesis
    using tasks_seeding [of users_only_db takes_any 0 1] tasks_seeding [of empty_db takes_any 0 0]
      1 2 3
    by simp
qed

section \<open>The calls of a whole run\<close>

lemma is_prefix_take: "is_prefix (take k ys) ys"
  by (simp add: is_prefix_def min_def take_all)

lemma is_prefix_length: "is_prefix xs ys \<Longrightarrow> length xs \<le> length ys"
proof -
  assume "is_prefix xs ys"
  then have "length (take (length xs) ys) = length xs" by (simp add: is_prefix_def)
  then show ?thesis by simp
qed

lemma is_prefix_append: "is_prefix xs ys \<Longrightarrow> is_prefix xs (ys @ zs)"
  using is_prefix_length [of xs ys] by (simp add: is_prefix_def)

lemma is_prefix_cons_append: "is_prefix xs ys \<Longrightarrow> is_prefix (zs @ xs) (zs @ ys)"
  by (simp add: is_prefix_def)

lemma is_prefix_set: "is_prefix xs ys \<Longrightarrow> set xs \<subseteq> set ys"
proof -
  assume "is_prefix xs ys"
  then have "xs = take (length xs) ys" by (simp add: is_prefix_def)
  then have "set xs = set (take (length xs) ys)" by simp
  then show ?thesis using set_take_subset [of "length xs" ys] by simp
qed

lemma trace_insertOne:
  "trace (insertOne c dc w) = (if failed w = None then trace w @ [InsertOne c dc] else trace w)"
  by (simp add: insertOne_def trace_put log_cmd_simps)

lemma trace_fold_put: "trace (fold (put c) dcs w) = trace w"
  by (induction dcs arbitrary: w) (simp_all add: trace_put)

lemma trace_insertMany:
  "trace (insertMany c dcs w) = (if failed w = None then trace w @ [InsertMany c dcs] else trace w)"
  by (simp add: insertMany_def trace_fold_put log_cmd_simps)

lemma failed_fold_put_None: "failed (fold (put c) dcs w) = None \<Longrightarrow> failed w = None"
  by (induction dcs arbitrary: w) (auto dest: failed_put_None)

lemma failed_insertMany_None: "failed (insertMany c dcs w) = None \<Longrightarrow> failed w = None"
  by (auto simp: insertMany_def log_cmd_simps dest: failed_fold_put_None)

lemma trace_seed:
  assumes "failed w = None"
  shows "is_prefix (trace (seed clock w)) (trace w @ seed_cmds clock (fresh w)) \<and>
         (countDocuments (store w) ''users'' \<noteq> 0 \<longrightarrow>
            trace (seed clock w) = trace w @ [CountDocuments ''users'']) \<and>
         (countDocuments (store w) ''users'' = 0 \<and> failed (seed clock w) = None \<longrightarrow>
            trace (seed clock w) = trace w @ seed_cmds clock (fresh w))"
proof (cases "countDocuments (store w) ''users'' = 0")
  case False
  then have "trace (seed clock w) = trace w @ [CountDocuments ''users'']"
    using assms by (simp add: seed_nonempty)
  then show ?thesis using False by (simp add: is_prefix_def seed_cmds_def)
next
  case True
  let ?w1 = "(log_cmd (CountDocuments ''users'') w)\<lparr>fresh := Suc (fresh w)\<rparr>"
  let ?w2 = "insertOne ''users'' (seed_user (BOid (fresh w)) (BDate clock)) ?w1"
  let ?w3 = "insertMany ''tasks'' (seed_tasks (BOid (fresh w)) (BDate clock)) ?w2"
  have eq: "seed clock w = ?w3" by (rule seed_empty [OF assms True])
  have t2: "trace ?w2 = trace w @ [CountDocuments ''users'',
      InsertOne ''users'' (seed_user (BOid (fresh w)) (BDate clock))]"
    using assms by (simp add: trace_insertOne log_cmd_simps)
  have t3: "trace ?w3 = (if failed ?w2 = None then trace w @ seed_cmds clock (fresh w) else trace ?w2)"
    using t2 by (simp add: trace_insertMany seed_cmds_def)
  have "is_prefix (trace ?w3) (trace w @ seed_cmds clock (fresh w))"
    using t3 t2 by (simp add: is_prefix_def seed_cmds_def)
  moreover have "failed ?w3 = None \<longrightarrow> trace ?w3 = trace w @ seed_cmds clock (fresh w)"
    using t3 failed_insertMany_None [of "''tasks''" _ ?w2] by auto
  ultimately show ?thesis using True eq by simp
qed

lemma trace_script:
  assumes ok: "failed w = None"
  shows "is_prefix (trace (script accepts clock w)) (trace w @ script_cmds accepts clock w) \<and>
         (failed (script accepts clock w) = None \<and> countDocuments (store w) ''users'' \<noteq> 0 \<longrightarrow>
            trace (script accepts clock w) =
              trace w @ ensure_cmds ''users'' usersSchema (Some usersIndexes) (store w) @
                ensure_cmds ''tasks'' tasksSchema (Some tasksIndexes)
                  (store (ensureCollection accepts ''users'' usersSchema (Some usersIndexes) w)) @
                [CountDocuments ''users'']) \<and>
         (failed (script accepts clock w) = None \<and> countDocuments (store w) ''users'' = 0 \<longrightarrow>
            trace (script accepts clock w) = trace w @ script_cmds accepts clock w)"
proof -
  let ?u = "ensureCollection accepts ''users'' usersSchema (Some usersIndexes) w"
  let ?t = "ensureCollection accepts ''tasks'' tasksSchema (Some tasksIndexes) ?u"
  let ?Eu = "ensure_cmds ''users'' usersSchema (Some usersIndexes) (store w)"
  let ?Et = "ensure_cmds ''tasks'' tasksSchema (Some tasksIndexes) (store ?u)"
  let ?S = "seed_cmds clock (fresh w)"
  from trace_ensureCollection [OF ok, of accepts "''users''" usersSchema "Some usersIndexes"]
  obtain k where ku: "trace ?u = trace w @ take (Suc (Suc k)) ?Eu \<and>
      (failed ?u = None \<longrightarrow> trace ?u = trace w @ ?Eu)" ..
  show ?thesis
  proof (cases "failed ?u = None")
    case False
    then have r: "script accepts clock w = ?u"
      by (simp add: script_def ensureCollection_failed seed_failed)
    have "is_prefix (trace w @ take (Suc (Suc k)) ?Eu) (trace w @ ?Eu @ ?Et @ ?S)"
      by (rule is_prefix_cons_append, rule is_prefix_append, rule is_prefix_take)
    then show ?thesis using False ku unfolding r by (auto simp: script_cmds_def)
  next
    case uok: True
    have tu: "trace ?u = trace w @ ?Eu" by (rule conjunct2 [OF ku, THEN mp, OF uok])
    from trace_ensureCollection [OF uok, of accepts "''tasks''" tasksSchema "Some tasksIndexes"]
    obtain j where kt: "trace ?t = trace ?u @ take (Suc (Suc j)) ?Et \<and>
        (failed ?t = None \<longrightarrow> trace ?t = trace ?u @ ?Et)" ..
    show ?thesis
    proof (cases "failed ?t = None")
      case False
      then have r: "script accepts clock w = ?t" by (simp add: script_def seed_failed)
      have "is_prefix ((trace w @ ?Eu) @ take (Suc (Suc j)) ?Et) ((trace w @ ?Eu) @ ?Et @ ?S)"
        by (rule is_prefix_cons_append, rule is_prefix_append, rule is_prefix_take)
      then show ?thesis using False kt tu unfolding r by (auto simp: script_cmds_def)
    next
      case tok: True
      have "trace ?t = trace ?u @ ?Et" by (rule conjunct2 [OF kt, THEN mp, OF tok])
      then have tt: "trace ?t = trace w @ ?Eu @ ?Et" using tu by simp
      have ft: "fresh ?t = fresh w" by (simp add: fresh_ensureCollection)
      have c: "countDocuments (store ?t) ''users'' = countDocuments (store w) ''users''"
        using ensure_phase_same_docs [of w accepts] by (simp add: same_docs_def countDocuments_def)
      show ?thesis
        using trace_seed [OF tok, of clock] tt
        by (simp add: script_def script_cmds_def ft c)
    qed
  qed
qed

lemma ensure_cmds_no_insert: "filter is_insert (ensure_cmds name schema indexes d) = []"
  by (cases indexes) (simp_all add: ensure_cmds_def validator_cmd_def index_cmd_eq filter_empty_conv)

lemma ensure_cmds_no_count: "CountDocuments c \<notin> set (ensure_cmds name schema indexes d)"
  by (cases indexes) (auto simp: ensure_cmds_def validator_cmd_def index_cmd_eq)

text \<open>
  C7, as stated, fails: here \<^verbatim>\<open>tasks\<close> is empty and the run completes (on a server
  that takes the two schemas), and the run neither counts the documents of \<^verbatim>\<open>tasks\<close>
  nor inserts any: there is no phase that seeds \<^verbatim>\<open>tasks\<close> when \<^verbatim>\<open>tasks\<close> is
  empty.
\<close>

theorem no_tasks_phase:
  "countDocuments users_only_db ''tasks'' = 0 \<and>
   failed (script takes_any 0 (start users_only_db 1)) = None \<and>
   filter is_insert (trace (script takes_any 0 (start users_only_db 1))) = [] \<and>
   CountDocuments ''tasks'' \<notin> set (trace (script takes_any 0 (start users_only_db 1)))"
  using script_users_only_takes_any [of 0 1]
  by (simp add: users_only_counts ensure_cmds_no_insert ensure_cmds_no_count)

text \<open>
  C7, as amended: the calls of a run are, in this order and up to the first that fails,
  those of \<open>ensureCollection\<close> for \<^verbatim>\<open>users\<close> (the validator call, then the index
  calls), those of \<open>ensureCollection\<close> for \<^verbatim>\<open>tasks\<close> (likewise), then one count of
  the documents of \<^verbatim>\<open>users\<close>, then the insert of the seed user, then the insert of the
  seed tasks. A run that completes with \<^verbatim>\<open>users\<close> not empty ends with the count; a run
  that completes with \<^verbatim>\<open>users\<close> and \<^verbatim>\<open>tasks\<close> empty issues all of them. So the seed
  user, with the identity taken for it, is inserted before any seed task; and no test of
  \<^verbatim>\<open>tasks\<close> stands between the two inserts.
\<close>

theorem script_call_order:
  "is_prefix (trace (script accepts clock (start d n)))
     (ensure_cmds ''users'' usersSchema (Some usersIndexes) d @
      ensure_cmds ''tasks'' tasksSchema (Some tasksIndexes)
        (store (ensureCollection accepts ''users'' usersSchema (Some usersIndexes) (start d n))) @
      [CountDocuments ''users'',
       InsertOne ''users'' (seed_user (BOid n) (BDate clock)),
       InsertMany ''tasks'' (seed_tasks (BOid n) (BDate clock))]) \<and>
   (failed (script accepts clock (start d n)) = None \<and> countDocuments d ''users'' \<noteq> 0 \<longrightarrow>
      trace (script accepts clock (start d n)) =
        ensure_cmds ''users'' usersSchema (Some usersIndexes) d @
        ensure_cmds ''tasks'' tasksSchema (Some tasksIndexes)
          (store (ensureCollection accepts ''users'' usersSchema (Some usersIndexes) (start d n))) @
        [CountDocuments ''users'']) \<and>
   (failed (script accepts clock (start d n)) = None \<and> countDocuments d ''users'' = 0 \<and>
    countDocuments d ''tasks'' = 0 \<longrightarrow>
      trace (script accepts clock (start d n)) =
        ensure_cmds ''users'' usersSchema (Some usersIndexes) d @
        ensure_cmds ''tasks'' tasksSchema (Some tasksIndexes)
          (store (ensureCollection accepts ''users'' usersSchema (Some usersIndexes) (start d n))) @
        [CountDocuments ''users'',
         InsertOne ''users'' (seed_user (BOid n) (BDate clock)),
         InsertMany ''tasks'' (seed_tasks (BOid n) (BDate clock))]) \<and>
   ensure_cmds name schema (Some idxs) d' =
     GetCollectionInfos name # validator_cmd name schema d' # map (index_cmd name) idxs"
proof -
  have ok: "failed (start d n) = None" by (simp add: start_def)
  show ?thesis
    using trace_script [OF ok, of accepts clock]
    by (simp add: script_cmds_def seed_cmds_def ensure_cmds_def start_def)
qed

theorem script_call_order_witness:
  "failed (script takes_any 0 (start empty_db 0)) = None \<and>
   countDocuments empty_db ''users'' = 0 \<and> countDocuments empty_db ''tasks'' = 0 \<and>
   trace (script takes_any 0 (start empty_db 0)) =
     ensure_cmds ''users'' usersSchema (Some usersIndexes) empty_db @
     ensure_cmds ''tasks'' tasksSchema (Some tasksIndexes)
       (store (ensureCollection takes_any ''users'' usersSchema (Some usersIndexes)
          (start empty_db 0))) @
     [CountDocuments ''users'',
      InsertOne ''users'' (seed_user (BOid 0) (BDate 0)),
      InsertMany ''tasks'' (seed_tasks (BOid 0) (BDate 0))] \<and>
   failed (script takes_any 0 (start users_only_db 1)) = None \<and>
   countDocuments users_only_db ''users'' \<noteq> 0 \<and>
   trace (script takes_any 0 (start users_only_db 1)) =
     ensure_cmds ''users'' usersSchema (Some usersIndexes) users_only_db @
     ensure_cmds ''tasks'' tasksSchema (Some tasksIndexes)
       (store (ensureCollection takes_any ''users'' usersSchema (Some usersIndexes)
          (start users_only_db 1))) @
     [CountDocuments ''users'']"
proof -
  have 1: "failed (script takes_any 0 (start empty_db 0)) = None"
    by (rule script_empty_db_takes_any)
  have 2: "countDocuments empty_db ''users'' = 0" "countDocuments empty_db ''tasks'' = 0"
    by (simp_all add: countDocuments_def the_coll_def empty_db_def empty_coll_def)
  have 3: "failed (script takes_any 0 (start users_only_db 1)) = None"
    using script_users_only_takes_any [of 0 1] by simp
  have 4: "countDocuments users_only_db ''users'' \<noteq> 0" by (simp add: users_only_counts)
  show ?thesis
    using script_call_order [of takes_any 0 empty_db 0 "[]" usersSchema "[]" empty_db]
      script_call_order [of takes_any 0 users_only_db 1 "[]" usersSchema "[]" empty_db] 1 2 3 4
    by simp
qed

section \<open>Documents the validators refuse\<close>

lemma with_id_set: "set dc \<subseteq> set (with_id n dc)"
  by (auto simp: with_id_def split: option.splits)

lemma with_id_fields: "f \<noteq> ''_id'' \<Longrightarrow> f \<in> fst ` set (with_id n dc) \<longleftrightarrow> f \<in> fst ` set dc"
  by (auto simp: with_id_def split: option.splits)

lemma json_schema_ok_field:
  "json_schema_ok (BObj kw) (BObj fs) \<Longrightarrow> (f, x) \<in> set fs \<Longrightarrow>
     map_of (the_properties (map_of kw ''properties'')) f = Some sch \<Longrightarrow> json_schema_ok sch x"
  by (auto simp: list_all_iff)

lemma json_schema_ok_required:
  "json_schema_ok (BObj kw) (BObj fs) \<Longrightarrow> map_of kw ''required'' = Some (BArr rs) \<Longrightarrow>
     BStr r \<in> set rs \<Longrightarrow> r \<in> fst ` set fs"
  by (auto simp: required_ok_def list_all_iff)

lemma bad_status_refused:
  assumes "(''status'', BStr s) \<in> set t"
    and "s \<notin> {''todo'', ''in_progress'', ''done'', ''archived''}"
  shows "\<not> json_schema_ok tasksSchema (BObj t)"
proof
  assume "json_schema_ok tasksSchema (BObj t)"
  then have "json_schema_ok
      (BObj [(''bsonType'', BStr ''string''),
             (''enum'', BArr [BStr ''todo'', BStr ''in_progress'', BStr ''done'', BStr ''archived'']),
             (''description'', BStr ''Task status'')]) (BStr s)"
    unfolding tasksSchema_def
    by (rule json_schema_ok_field [where f = "''status''"])
       (simp_all add: assms(1) the_properties_def)
  then show False using assms(2) by (simp add: enum_ok_def)
qed

lemma short_email_refused:
  assumes "(''email'', BStr e) \<in> set u" and "length e < 5"
  shows "\<not> json_schema_ok usersSchema (BObj u)"
proof
  assume "json_schema_ok usersSchema (BObj u)"
  then have "json_schema_ok
      (BObj [(''bsonType'', BStr ''string''),
             (''description'', BStr ''User email in lowercase''),
             (''minLength'', BInt 5),
             (''maxLength'', BInt 320)]) (BStr e)"
    unfolding usersSchema_def
    by (rule json_schema_ok_field [where f = "''email''"])
       (simp_all add: assms(1) the_properties_def)
  then show False using assms(2) by (simp add: minLength_ok_def)
qed

lemma missing_title_refused:
  assumes "''title'' \<notin> fst ` set t"
  shows "\<not> json_schema_ok tasksSchema (BObj t)"
proof
  assume "json_schema_ok tasksSchema (BObj t)"
  then have "''title'' \<in> fst ` set t"
    unfolding tasksSchema_def
    by (rule json_schema_ok_required [where r = "''title''"]) (simp, simp)
  then show False using assms by simp
qed

lemma refused_insertOne:
  assumes ok: "failed w = None" and v: "validated c schema (store w)"
    and bad: "\<not> json_schema_ok schema (BObj (with_id (fresh w) dc))"
  shows "failed (insertOne c dc w) = Some DocumentValidationFailure \<and>
         store (insertOne c dc w) = store w"
proof -
  have "validation_refuses (the_coll (store w) c) (with_id (fresh w) dc)"
    using v bad by (auto simp: validated_def validation_refuses_def the_coll_def split: option.splits)
  then have "insertDoc c (with_id (fresh w) dc) (store w) = Inl DocumentValidationFailure"
    by (simp add: insertDoc_def)
  then show ?thesis using ok by (simp add: insertOne_def put_def log_cmd_def)
qed

lemma script_validated:
  assumes "failed w = None" and "failed (script accepts clock w) = None"
  shows "validated ''users'' usersSchema (store (script accepts clock w)) \<and>
         validated ''tasks'' tasksSchema (store (script accepts clock w))"
proof -
  let ?u = "ensureCollection accepts ''users'' usersSchema (Some usersIndexes) w"
  let ?t = "ensureCollection accepts ''tasks'' tasksSchema (Some tasksIndexes) ?u"
  have "failed (seed clock ?t) = None" using assms(2) by (simp add: script_def)
  then have tok: "failed ?t = None" by (rule failed_seed_None)
  then have uok: "failed ?u = None" by (rule failed_ensureCollection_None)
  have at: "accepts tasksSchema" by (rule ensureCollection_completed(2) [OF tok])
  have au: "accepts usersSchema" by (rule ensureCollection_completed(2) [OF uok])
  have "validated ''users'' usersSchema (store ?u)"
    by (rule validated_ensureCollection [where accepts = accepts and schema = usersSchema,
          OF assms(1) au])
  then have "validated ''users'' usersSchema (store ?t)" by (rule validated_users_kept_tasks)
  then have 1: "validated ''users'' usersSchema (store (seed clock ?t))"
    by (rule validated_kept_seed)
  have "validated ''tasks'' tasksSchema (store ?t)"
    by (rule validated_ensureCollection [where accepts = accepts and schema = tasksSchema,
          OF uok at])
  then have 2: "validated ''tasks'' tasksSchema (store (seed clock ?t))"
    by (rule validated_kept_seed)
  show ?thesis using 1 2 by (simp add: script_def)
qed

text \<open>
  C8: after a run that completed, so that the server took both schemas and both
  validators are installed, an insert
  into \<^verbatim>\<open>tasks\<close> of a document whose \<^verbatim>\<open>status\<close> is a string outside \<^verbatim>\<open>todo\<close>,
  \<^verbatim>\<open>in_progress\<close>, \<^verbatim>\<open>done\<close>, \<^verbatim>\<open>archived\<close> is refused; so is an insert into
  \<^verbatim>\<open>users\<close> of a document whose \<^verbatim>\<open>email\<close> is a string of fewer than 5 characters,
  and an insert into \<^verbatim>\<open>tasks\<close> of a document with no \<^verbatim>\<open>title\<close>. A refused insert
  fails with a validation error and writes nothing.
\<close>

theorem validators_reject:
  "failed (script accepts clock (start d n)) = None \<Longrightarrow>
   ((''status'', BStr s) \<in> set t \<and> s \<notin> {''todo'', ''in_progress'', ''done'', ''archived''} \<longrightarrow>
      failed (insertOne ''tasks'' t (script accepts clock (start d n))) = Some DocumentValidationFailure \<and>
      store (insertOne ''tasks'' t (script accepts clock (start d n))) = store (script accepts clock (start d n))) \<and>
   ((''email'', BStr e) \<in> set u \<and> length e < 5 \<longrightarrow>
      failed (insertOne ''users'' u (script accepts clock (start d n))) = Some DocumentValidationFailure \<and>
      store (insertOne ''users'' u (script accepts clock (start d n))) = store (script accepts clock (start d n))) \<and>
   (''title'' \<notin> fst ` set t' \<longrightarrow>
      failed (insertOne ''tasks'' t' (script accepts clock (start d n))) = Some DocumentValidationFailure \<and>
      store (insertOne ''tasks'' t' (script accepts clock (start d n))) = store (script accepts clock (start d n)))"
proof -
  let ?r = "script accepts clock (start d n)"
  assume ok: "failed ?r = None"
  have "failed (start d n) = None" by (simp add: start_def)
  then have v: "validated ''users'' usersSchema (store ?r)" "validated ''tasks'' tasksSchema (store ?r)"
    using script_validated [OF _ ok] by simp_all
  have 1: "failed (insertOne ''tasks'' t ?r) = Some DocumentValidationFailure \<and>
      store (insertOne ''tasks'' t ?r) = store ?r"
    if "(''status'', BStr s) \<in> set t" and "s \<notin> {''todo'', ''in_progress'', ''done'', ''archived''}"
  proof (rule refused_insertOne [OF ok v(2)])
    have "(''status'', BStr s) \<in> set (with_id (fresh ?r) t)" using that(1) with_id_set by blast
    then show "\<not> json_schema_ok tasksSchema (BObj (with_id (fresh ?r) t))"
      using that(2) by (rule bad_status_refused)
  qed
  have 2: "failed (insertOne ''users'' u ?r) = Some DocumentValidationFailure \<and>
      store (insertOne ''users'' u ?r) = store ?r"
    if "(''email'', BStr e) \<in> set u" and "length e < 5"
  proof (rule refused_insertOne [OF ok v(1)])
    have "(''email'', BStr e) \<in> set (with_id (fresh ?r) u)" using that(1) with_id_set by blast
    then show "\<not> json_schema_ok usersSchema (BObj (with_id (fresh ?r) u))"
      using that(2) by (rule short_email_refused)
  qed
  have 3: "failed (insertOne ''tasks'' t' ?r) = Some DocumentValidationFailure \<and>
      store (insertOne ''tasks'' t' ?r) = store ?r"
    if "''title'' \<notin> fst ` set t'"
  proof (rule refused_insertOne [OF ok v(2)])
    have "''title'' \<notin> fst ` set (with_id (fresh ?r) t')" using that by (simp add: with_id_fields)
    then show "\<not> json_schema_ok tasksSchema (BObj (with_id (fresh ?r) t'))"
      by (rule missing_title_refused)
  qed
  show ?thesis using 1 2 3 by blast
qed

theorem validators_reject_witness:
  "failed (script takes_any 0 (start empty_db 0)) = None \<and>
   failed (insertOne ''tasks'' [(''title'', BStr ''Ship it''), (''status'', BStr ''blocked'')]
      (script takes_any 0 (start empty_db 0))) = Some DocumentValidationFailure \<and>
   failed (insertOne ''users'' [(''email'', BStr ''a@b'')]
      (script takes_any 0 (start empty_db 0))) = Some DocumentValidationFailure \<and>
   failed (insertOne ''tasks'' [(''status'', BStr ''todo'')]
      (script takes_any 0 (start empty_db 0))) = Some DocumentValidationFailure"
proof -
  have 1: "failed (script takes_any 0 (start empty_db 0)) = None"
    by (rule script_empty_db_takes_any)
  show ?thesis
    using validators_reject [OF 1, of "''blocked''"
        "[(''title'', BStr ''Ship it''), (''status'', BStr ''blocked'')]"
        "''a@b''" "[(''email'', BStr ''a@b'')]" "[(''status'', BStr ''todo'')]"] 1
    by simp
qed

section \<open>What a run leaves alone\<close>

lemma others_untouched_refl: "others_untouched d d"
  by (simp add: others_untouched_def)

lemma others_untouched_same_docs:
  "others_untouched a d \<Longrightarrow> same_docs d d' \<Longrightarrow> others_untouched a d'"
  by (simp add: others_untouched_def same_docs_def)

lemma kept_others_untouched_step:
  assumes "\<And>d d'. f d = Inr d' \<Longrightarrow> same_docs d d'"
  shows "kept_by (others_untouched a) f"
  unfolding kept_by_def
proof (intro allI impI)
  fix d d'
  assume 1: "others_untouched a d" and 2: "f d = Inr d'"
  show "others_untouched a d'"
    by (rule others_untouched_same_docs [OF 1 assms [OF 2]])
qed

lemma kept_others_untouched:
  "kept_by (others_untouched a) (createIndex c ks opts)"
  "kept_by (others_untouched a) (createCollection accepts c s l m)"
  "kept_by (others_untouched a) (collMod accepts c s l m)"
proof -
  show "kept_by (others_untouched a) (createIndex c ks opts)"
    by (rule kept_others_untouched_step) (rule conjunct1 [OF step_createIndex])
  show "kept_by (others_untouched a) (createCollection accepts c s l m)"
    by (rule kept_others_untouched_step) (rule conjunct1 [OF step_createCollection])
  show "kept_by (others_untouched a) (collMod accepts c s l m)"
    by (rule kept_others_untouched_step) (rule conjunct1 [OF step_collMod])
qed

lemma kept_others_untouched_insertDoc:
  assumes "c = ''users'' \<or> c = ''tasks''"
  shows "kept_by (others_untouched a) (insertDoc c dc)"
  unfolding kept_by_def
proof (intro allI impI)
  fix d d'
  assume 1: "others_untouched a d" and 2: "insertDoc c dc d = Inr d'"
  have d': "d' = d(c \<mapsto> (the_coll d c)\<lparr>c_docs := c_docs (the_coll d c) @ [dc]\<rparr>)"
    using insertDoc_Inr [OF 2] by simp
  have "c_docs (the_coll d' x) = c_docs (the_coll a x)" if "x \<noteq> ''users''" "x \<noteq> ''tasks''" for x
  proof -
    have "x \<noteq> c" using that assms by auto
    then have "the_coll d' x = the_coll d x" unfolding d' by (simp add: the_coll_upd)
    then show ?thesis using 1 that by (simp add: others_untouched_def)
  qed
  then show "others_untouched a d'" by (simp add: others_untouched_def)
qed

lemma ensure_cmds_not_insert:
  "y \<in> set (ensure_cmds name schema indexes d) \<Longrightarrow> \<not> is_insert y"
  using ensure_cmds_no_insert [of name schema indexes d] by (simp add: filter_empty_conv)

lemma script_cmds_inserts:
  assumes "x \<in> set (script_cmds accepts clock w)" and "is_insert x"
  shows "x = InsertOne ''users'' (seed_user (BOid (fresh w)) (BDate clock)) \<or>
         x = InsertMany ''tasks'' (seed_tasks (BOid (fresh w)) (BDate clock))"
proof -
  let ?Eu = "ensure_cmds ''users'' usersSchema (Some usersIndexes) (store w)"
  let ?Et = "ensure_cmds ''tasks'' tasksSchema (Some tasksIndexes)
       (store (ensureCollection accepts ''users'' usersSchema (Some usersIndexes) w))"
  have "x \<in> set ?Eu \<or> x \<in> set ?Et \<or> x \<in> set (seed_cmds clock (fresh w))"
    using assms(1) by (simp add: script_cmds_def)
  moreover have "x \<notin> set ?Eu" using assms(2) ensure_cmds_not_insert [of x] by (rule contrapos_pn)
  moreover have "x \<notin> set ?Et" using assms(2) ensure_cmds_not_insert [of x] by (rule contrapos_pn)
  ultimately have "x \<in> set (seed_cmds clock (fresh w))" by simp
  then show ?thesis using assms(2) by (auto simp: seed_cmds_def)
qed

text \<open>
  C9: whatever the database a run starts from and whatever validators the server takes,
  and whether the run completes or stops at a failing call, every collection that
  existed still exists, and its documents and its
  indexes are those it had, in their order, with at most new ones after them. Documents
  are added to \<^verbatim>\<open>users\<close> and \<^verbatim>\<open>tasks\<close> only, and to none when \<^verbatim>\<open>users\<close> was
  not empty. The only inserts the run issues are the insert of the seed user and the
  insert of the seed tasks.
\<close>

theorem script_frame:
  "grows d (store (script accepts clock (start d n))) \<and>
   others_untouched d (store (script accepts clock (start d n))) \<and>
   (countDocuments d ''users'' \<noteq> 0 \<longrightarrow> same_docs d (store (script accepts clock (start d n)))) \<and>
   list_all (\<lambda>x. is_insert x \<longrightarrow>
       x = InsertOne ''users'' (seed_user (BOid n) (BDate clock)) \<or>
       x = InsertMany ''tasks'' (seed_tasks (BOid n) (BDate clock)))
     (trace (script accepts clock (start d n)))"
proof -
  let ?w = "start d n"
  have w: "store ?w = d" "failed ?w = None" "fresh ?w = n" "trace ?w = []"
    by (simp_all add: start_def)
  have 1: "grows d (store (script accepts clock ?w))"
    by (rule kept_script [of "grows d"])
       (simp_all add: kept_grows_createIndex kept_grows_insertDoc kept_grows_createCollection
          kept_grows_collMod w grows_refl)
  have 2: "others_untouched d (store (script accepts clock ?w))"
    by (rule kept_script [of "others_untouched d"])
       (simp_all add: kept_others_untouched kept_others_untouched_insertDoc w
          others_untouched_refl)
  have 3: "same_docs d (store (script accepts clock ?w))" if "countDocuments d ''users'' \<noteq> 0"
    using script_users_nonempty [of ?w accepts clock] that by (simp add: w)
  have "set (trace (script accepts clock ?w)) \<subseteq> set (script_cmds accepts clock ?w)"
    using trace_script [OF w(2), of accepts clock]
      is_prefix_set [of "trace (script accepts clock ?w)"]
    by (simp add: w)
  then have 4: "list_all (\<lambda>x. is_insert x \<longrightarrow>
       x = InsertOne ''users'' (seed_user (BOid n) (BDate clock)) \<or>
       x = InsertMany ''tasks'' (seed_tasks (BOid n) (BDate clock)))
     (trace (script accepts clock ?w))"
  proof -
    assume sub: "set (trace (script accepts clock ?w)) \<subseteq> set (script_cmds accepts clock ?w)"
    have "x = InsertOne ''users'' (seed_user (BOid n) (BDate clock)) \<or>
          x = InsertMany ''tasks'' (seed_tasks (BOid n) (BDate clock))"
      if "x \<in> set (trace (script accepts clock ?w))" and "is_insert x" for x
    proof -
      have "x \<in> set (script_cmds accepts clock ?w)" using that(1) sub by (rule subsetD [rotated])
      then show ?thesis
        using script_cmds_inserts [OF _ that(2), of accepts clock ?w] by (simp add: w)
    qed
    then show ?thesis unfolding list_all_iff by simp
  qed
  show ?thesis using 1 2 3 4 by simp
qed

theorem script_frame_witness:
  "countDocuments users_only_db ''users'' \<noteq> 0 \<and>
   same_docs users_only_db (store (script takes_any 0 (start users_only_db 1))) \<and>
   grows users_only_db (store (script takes_any 0 (start users_only_db 1))) \<and>
   others_untouched users_only_db (store (script takes_any 0 (start users_only_db 1))) \<and>
   c_docs (the_coll (store (script takes_any 0 (start users_only_db 1))) ''users'') =
     [seed_user (BOid 0) (BDate 0)] \<and>
   same_docs users_only_db (store (script parses 0 (start users_only_db 1))) \<and>
   grows users_only_db (store (script parses 0 (start users_only_db 1)))"
proof -
  have 1: "countDocuments users_only_db ''users'' \<noteq> 0" by (simp add: users_only_counts)
  have 2: "c_docs (the_coll users_only_db ''users'') = [seed_user (BOid 0) (BDate 0)]"
    by (simp add: users_only_db_def the_coll_def installed_def)
  show ?thesis
    using script_frame [of users_only_db takes_any 0 1] script_frame [of users_only_db parses 0 1]
      1 2
    by (simp add: same_docs_def)
qed

section \<open>A database with a task and no user\<close>

lemma tasks_only_settled:
  "validated ''users'' usersSchema tasks_only_db"
  "validated ''tasks'' tasksSchema tasks_only_db"
  "list_all (\<lambda>idx. idx_ensured ''users'' idx tasks_only_db) usersIndexes"
  "list_all (\<lambda>idx. idx_ensured ''tasks'' idx tasks_only_db) tasksIndexes"
  by (simp_all add: tasks_only_db_def validated_def idx_ensured_def ensured_def the_coll_def
      installed_def as_index_def usersIndexes_def tasksIndexes_def declared_keys_def
      declared_options_def target_def local_name_def or_else_def index_name_def named_def
      no_options_def)

lemma seed_on_tasks_only:
  "seed clock \<lparr>store = tasks_only_db, trace = tr, fresh = Suc n, failed = None\<rparr> =
     \<lparr>store = empty_db(
        ''users'' \<mapsto> (installed usersSchema usersIndexes)\<lparr>
           c_docs := [seed_user (BOid (Suc n)) (BDate clock)]\<rparr>,
        ''tasks'' \<mapsto> (installed tasksSchema tasksIndexes)\<lparr>
           c_docs := old_task # map2 with_id [Suc (Suc n), Suc (Suc (Suc n))]
                       (seed_tasks (BOid (Suc n)) (BDate clock))\<rparr>),
      trace = tr @ [CountDocuments ''users'',
                    InsertOne ''users'' (seed_user (BOid (Suc n)) (BDate clock)),
                    InsertMany ''tasks'' (seed_tasks (BOid (Suc n)) (BDate clock))],
      fresh = Suc (Suc (Suc (Suc n))), failed = None\<rparr>"
  using seed_user_ok [of "Suc n" clock] seed_tasks_docs_ok [of _ "Suc n" clock]
  by (simp add: seed_def insertOne_def insertMany_def log_cmd_def put_step insertDoc_add
      countDocuments_def the_coll_def validation_refuses_def duplicate_key_def
      installed_def as_index_def declared_keys_def declared_options_def
      usersIndexes_def tasksIndexes_def seed_user_def seed_tasks_def tasks_only_db_def
      old_task_def with_id_def next_fresh_def is_unique_def named_def no_options_def
      key_of_def empty_db_def Let_def)

text \<open>
  With \<^verbatim>\<open>users\<close> empty and \<^verbatim>\<open>tasks\<close> not, on a server that takes the two
  schemas, the run completes and appends the two seed tasks to the task that was there.
\<close>

lemma script_tasks_only:
  assumes "accepts usersSchema" and "accepts tasksSchema"
  shows "failed (script accepts clock (start tasks_only_db (Suc n))) = None \<and>
   countDocuments tasks_only_db ''users'' = 0 \<and>
   countDocuments tasks_only_db ''tasks'' = 1 \<and>
   c_docs (the_coll (store (script accepts clock (start tasks_only_db (Suc n)))) ''tasks'') =
     old_task # map2 with_id [Suc (Suc n), Suc (Suc (Suc n))]
                  (seed_tasks (BOid (Suc n)) (BDate clock))"
proof -
  let ?w = "start tasks_only_db (Suc n)"
  let ?u = "ensureCollection accepts ''users'' usersSchema (Some usersIndexes) ?w"
  let ?t = "ensureCollection accepts ''tasks'' tasksSchema (Some tasksIndexes) ?u"
  have w: "failed ?w = None" "store ?w = tasks_only_db" by (simp_all add: start_def)
  have u: "store ?u = tasks_only_db" "failed ?u = None"
    using ensureCollection_noop [where accepts = accepts and schema = usersSchema
        and name = "''users''" and idxs = usersIndexes, OF w(1) assms(1)]
      tasks_only_settled by (simp_all add: w(2))
  have t: "store ?t = tasks_only_db" "failed ?t = None"
    using ensureCollection_noop [where accepts = accepts and schema = tasksSchema
        and name = "''tasks''" and idxs = tasksIndexes, OF u(2) assms(2)]
      tasks_only_settled by (simp_all add: u(1))
  have f: "fresh ?t = Suc n" by (simp add: fresh_ensureCollection start_def)
  have "?t = \<lparr>store = tasks_only_db, trace = trace ?t, fresh = Suc n, failed = None\<rparr>"
    using t f by (cases ?t) simp
  then have "script accepts clock ?w =
      seed clock \<lparr>store = tasks_only_db, trace = trace ?t, fresh = Suc n, failed = None\<rparr>"
    by (simp add: script_def)
  then have r: "failed (script accepts clock ?w) = None"
    "store (script accepts clock ?w) = empty_db(
        ''users'' \<mapsto> (installed usersSchema usersIndexes)\<lparr>
           c_docs := [seed_user (BOid (Suc n)) (BDate clock)]\<rparr>,
        ''tasks'' \<mapsto> (installed tasksSchema tasksIndexes)\<lparr>
           c_docs := old_task # map2 with_id [Suc (Suc n), Suc (Suc (Suc n))]
                       (seed_tasks (BOid (Suc n)) (BDate clock))\<rparr>)"
    by (simp_all only: seed_on_tasks_only world.simps)
  show ?thesis
    unfolding r
    by (simp add: the_coll_def countDocuments_def tasks_only_db_def installed_def empty_db_def)
qed

end
